theory Spec2Isabelle
  imports Main
begin

section \<open>Python values\<close>

text \<open>
  Both notebooks declare their data classes with type annotations, but a Python
  \<^verbatim>\<open>@dataclass\<close> does not check them: a field holds whatever value it was given.
  The fields are therefore modelled as Python values. The values are those that the
  programs build themselves or obtain from \<^verbatim>\<open>json.loads\<close>: \<^verbatim>\<open>None\<close>, booleans,
  integers (unbounded), strings, lists, tuples and dictionaries with string keys.
  Floating-point numbers are outside the model. A string is a list of 8-bit characters,
  read as the code points below 256.
\<close>

datatype pyval =
    PNone
  | PBool bool
  | PInt int
  | PStr string
  | PList "pyval list"
  | PTuple "pyval list"
  | PDict "(string \<times> pyval) list"

datatype error =
    IndexError
  | KeyError
  | TypeError
  | AttributeError
  | ExternalError string

definition ebind :: "error + 'a \<Rightarrow> ('a \<Rightarrow> error + 'b) \<Rightarrow> error + 'b" where
  "ebind m f = (case m of Inl e \<Rightarrow> Inl e | Inr x \<Rightarrow> f x)"

text \<open>\<^verbatim>\<open>bool\<close> is a subclass of \<^verbatim>\<open>int\<close>: \<^verbatim>\<open>True\<close> is 1 and \<^verbatim>\<open>False\<close> is 0.\<close>

fun py_num :: "pyval \<Rightarrow> int option" where
  "py_num (PBool b) = Some (if b then 1 else 0)"
| "py_num (PInt i) = Some i"
| "py_num _ = None"

text \<open>
  \<^verbatim>\<open>a == b\<close>. Two dictionaries are equal when they have the same number of entries and
  every entry of the first is found, with an equal value, in the second.
\<close>

fun py_eq :: "pyval \<Rightarrow> pyval \<Rightarrow> bool" where
  "py_eq PNone PNone = True"
| "py_eq (PStr a) (PStr b) = (a = b)"
| "py_eq (PList xs) (PList ys) = list_all2 py_eq xs ys"
| "py_eq (PTuple xs) (PTuple ys) = list_all2 py_eq xs ys"
| "py_eq (PDict a) (PDict b) =
     (length a = length b \<and>
      list_all (\<lambda>kv. case map_of b (fst kv) of None \<Rightarrow> False | Some w \<Rightarrow> py_eq (snd kv) w) a)"
| "py_eq a b = (case (py_num a, py_num b) of (Some m, Some n) \<Rightarrow> m = n | _ \<Rightarrow> False)"

text \<open>
  The ordering comparisons \<^verbatim>\<open>a < b\<close> and \<^verbatim>\<open>a > b\<close>. Numbers compare by value, strings
  by code point, lists with lists and tuples with tuples lexicographically (the first
  pair of unequal items decides, otherwise the lengths); every other pair of operands
  raises \<^verbatim>\<open>TypeError\<close>.
\<close>

datatype cmp_op = Lt | Gt

fun int_cmp :: "cmp_op \<Rightarrow> int \<Rightarrow> int \<Rightarrow> bool" where
  "int_cmp Lt m n = (m < n)"
| "int_cmp Gt m n = (m > n)"

fun str_cmp :: "cmp_op \<Rightarrow> string \<Rightarrow> string \<Rightarrow> bool" where
  "str_cmp opr [] [] = False"
| "str_cmp opr [] (y # ys) = (opr = Lt)"
| "str_cmp opr (x # xs) [] = (opr = Gt)"
| "str_cmp opr (x # xs) (y # ys) =
     (if x = y then str_cmp opr xs ys
      else int_cmp opr (int (of_char x :: nat)) (int (of_char y :: nat)))"

fun py_cmp :: "cmp_op \<Rightarrow> pyval \<Rightarrow> pyval \<Rightarrow> error + bool"
  and seq_cmp :: "cmp_op \<Rightarrow> pyval list \<Rightarrow> pyval list \<Rightarrow> error + bool" where
  "py_cmp opr (PStr a) (PStr b) = Inr (str_cmp opr a b)"
| "py_cmp opr (PList xs) (PList ys) = seq_cmp opr xs ys"
| "py_cmp opr (PTuple xs) (PTuple ys) = seq_cmp opr xs ys"
| "py_cmp opr a b =
     (case (py_num a, py_num b) of
        (Some m, Some n) \<Rightarrow> Inr (int_cmp opr m n)
      | _ \<Rightarrow> Inl TypeError)"
| "seq_cmp opr [] [] = Inr False"
| "seq_cmp opr [] (y # ys) = Inr (opr = Lt)"
| "seq_cmp opr (x # xs) [] = Inr (opr = Gt)"
| "seq_cmp opr (x # xs) (y # ys) =
     (if py_eq x y then seq_cmp opr xs ys else py_cmp opr x y)"

text \<open>\<^verbatim>\<open>v[i]\<close> for a literal index \<^verbatim>\<open>i\<close> that is not negative.\<close>

fun py_getitem :: "pyval \<Rightarrow> nat \<Rightarrow> error + pyval" where
  "py_getitem (PList xs) i = (if i < length xs then Inr (xs ! i) else Inl IndexError)"
| "py_getitem (PTuple xs) i = (if i < length xs then Inr (xs ! i) else Inl IndexError)"
| "py_getitem (PStr s) i = (if i < length s then Inr (PStr [s ! i]) else Inl IndexError)"
| "py_getitem (PDict d) i = Inl KeyError"
| "py_getitem _ i = Inl TypeError"

text \<open>\<^verbatim>\<open>v["key"]\<close> for a string key.\<close>

fun py_getkey :: "pyval \<Rightarrow> string \<Rightarrow> error + pyval" where
  "py_getkey (PDict d) k = (case map_of d k of None \<Rightarrow> Inl KeyError | Some v \<Rightarrow> Inr v)"
| "py_getkey _ k = Inl TypeError"

text \<open>
  Iterating a value (\<^verbatim>\<open>for x in v\<close>): the items of a list or tuple, the characters of a
  string, the keys of a dictionary; any other value raises \<^verbatim>\<open>TypeError\<close>.
\<close>

fun py_iter :: "pyval \<Rightarrow> error + pyval list" where
  "py_iter (PList xs) = Inr xs"
| "py_iter (PTuple xs) = Inr xs"
| "py_iter (PStr s) = Inr (map (\<lambda>c. PStr [c]) s)"
| "py_iter (PDict d) = Inr (map (\<lambda>kv. PStr (fst kv)) d)"
| "py_iter _ = Inl TypeError"

text \<open>\<^verbatim>\<open>v.get(key, default)\<close>: only a dictionary has the method.\<close>

fun py_dict_get :: "pyval \<Rightarrow> string \<Rightarrow> pyval \<Rightarrow> error + pyval" where
  "py_dict_get (PDict d) k dflt = Inr (case map_of d k of None \<Rightarrow> dflt | Some v \<Rightarrow> v)"
| "py_dict_get _ k dflt = Inl AttributeError"

definition endswith :: "string \<Rightarrow> string \<Rightarrow> bool" where
  "endswith s suf = (length suf \<le> length s \<and> drop (length s - length suf) s = suf)"

text \<open>\<^verbatim>\<open>v.endswith(suffix)\<close>: only a string has the method.\<close>

fun py_endswith :: "pyval \<Rightarrow> string \<Rightarrow> error + bool" where
  "py_endswith (PStr s) suf = Inr (endswith s suf)"
| "py_endswith _ suf = Inl AttributeError"

section \<open>The domain model\<close>

text \<open>
  \<^verbatim>\<open>Colour\<close> (name, base, hex, rgb) and \<^verbatim>\<open>ColourId\<close> (the same fields and \<^verbatim>\<open>id\<close>). The reader
  notebook declares \<^verbatim>\<open>ColourId\<close> a second time, with the same fields.
\<close>

record Colour =
  name :: pyval
  base :: pyval
  hex :: pyval
  rgb :: pyval

record ColourId = Colour +
  id' :: pyval

section \<open>The colour predicates\<close>

text \<open>
  \<^verbatim>\<open>colour.rgb[0] > colour.rgb[1] and colour.rgb[0] > colour.rgb[2]\<close>: the operands
  are evaluated from left to right, and \<^verbatim>\<open>and\<close> evaluates its right operand only when
  the left one is true.
\<close>

definition is_colour_reddish :: "ColourId \<Rightarrow> error + bool" where
  "is_colour_reddish colour =
     ebind (py_getitem (rgb colour) 0) (\<lambda>r0.
     ebind (py_getitem (rgb colour) 1) (\<lambda>g.
     ebind (py_cmp Gt r0 g) (\<lambda>t.
       if \<not> t then Inr False
       else
         ebind (py_getitem (rgb colour) 0) (\<lambda>r1.
         ebind (py_getitem (rgb colour) 2) (\<lambda>b.
         py_cmp Gt r1 b)))))"

definition is_colour_muted :: "ColourId \<Rightarrow> error + bool" where
  "is_colour_muted colour =
     ebind (py_getitem (rgb colour) 0) (\<lambda>r.
     ebind (py_cmp Lt r (PInt 128)) (\<lambda>t0.
       if \<not> t0 then Inr False
       else
         ebind (py_getitem (rgb colour) 1) (\<lambda>g.
         ebind (py_cmp Lt g (PInt 128)) (\<lambda>t1.
           if \<not> t1 then Inr False
           else
             ebind (py_getitem (rgb colour) 2) (\<lambda>b.
             py_cmp Lt b (PInt 128))))))"

section \<open>Regular expressions\<close>

text \<open>
  The scraper calls \<^verbatim>\<open>re.search(pattern, text, re.IGNORECASE)\<close> with two patterns. The
  patterns are built from single-character atoms (a literal, a class of ranges, \<^verbatim>\<open>\d\<close>,
  \<^verbatim>\<open>\s\<close>), greedy repetitions of an atom (\<^verbatim>\<open>{m,n}\<close>, \<^verbatim>\<open>*\<close>) and capture groups. The
  engine below is the backtracking matcher of \<^verbatim>\<open>re\<close> for such patterns, always with
  \<^verbatim>\<open>IGNORECASE\<close>: \<^verbatim>\<open>rmatch\<close> lists the ways a pattern matches at the start of a string in
  the order in which the matcher tries them (a greedy repetition tries the longest run
  first), and \<^verbatim>\<open>re_search\<close> takes the first way at the leftmost position that has one.

  Characters are the code points below 256. There \<^verbatim>\<open>\d\<close> matches the ten ASCII digits,
  \<^verbatim>\<open>\s\<close> matches the characters for which \<^verbatim>\<open>str.isspace\<close> holds, and lower case is
  that of the ASCII and Latin-1 letters.
\<close>

definition code :: "char \<Rightarrow> nat" where
  "code c = of_char c"

definition is_digit :: "char \<Rightarrow> bool" where
  "is_digit c = (48 \<le> code c \<and> code c \<le> 57)"

definition is_space :: "char \<Rightarrow> bool" where
  "is_space c =
     ((9 \<le> code c \<and> code c \<le> 13) \<or> (28 \<le> code c \<and> code c \<le> 32)
      \<or> code c = 133 \<or> code c = 160)"

definition lower :: "char \<Rightarrow> char" where
  "lower c =
     (if (65 \<le> code c \<and> code c \<le> 90)
         \<or> (192 \<le> code c \<and> code c \<le> 222 \<and> code c \<noteq> 215)
      then char_of (code c + 32) else c)"

text \<open>The upper-case letter whose lower case is the given lower-case letter.\<close>

definition unlower :: "char \<Rightarrow> char" where
  "unlower c =
     (if (97 \<le> code c \<and> code c \<le> 122)
         \<or> (224 \<le> code c \<and> code c \<le> 254 \<and> code c \<noteq> 247)
      then char_of (code c - 32) else c)"

datatype atom = Lit char | CharSet "(char \<times> char) list" | Digit | Space

definition in_ranges :: "(char \<times> char) list \<Rightarrow> char \<Rightarrow> bool" where
  "in_ranges rs c = list_ex (\<lambda>r. code (fst r) \<le> code c \<and> code c \<le> code (snd r)) rs"

text \<open>
  With \<^verbatim>\<open>IGNORECASE\<close> a character matches a literal when both have the same lower case,
  and it matches a class when its lower case is the lower case of a member of the class.
\<close>

fun atom_match :: "atom \<Rightarrow> char \<Rightarrow> bool" where
  "atom_match (Lit l) c = (lower c = lower l)"
| "atom_match (CharSet rs) c = (in_ranges rs (lower c) \<or> in_ranges rs (unlower (lower c)))"
| "atom_match Digit c = is_digit c"
| "atom_match Space c = is_space c"

datatype re = Atom atom | Rep atom nat "nat option" | Group "re list"

text \<open>
  The numbers of repetitions that a greedy repetition tries, in order: from the longest
  run the text allows (at most the upper bound) down to the lower bound.
\<close>

definition rep_counts :: "atom \<Rightarrow> nat \<Rightarrow> nat option \<Rightarrow> string \<Rightarrow> nat list" where
  "rep_counts a lo hi s =
     (let n = length (takeWhile (atom_match a) s);
          m = (case hi of None \<Rightarrow> n | Some h \<Rightarrow> min h n)
      in rev [lo ..< Suc m])"

text \<open>
  Each way of matching is the list of the texts of the capture groups, in the order of
  their opening parentheses, and the rest of the string after the match.
\<close>

fun rmatch :: "re list \<Rightarrow> string \<Rightarrow> (string list \<times> string) list" where
  "rmatch [] s = [([], s)]"
| "rmatch (Atom a # rs) s =
     (case s of [] \<Rightarrow> [] | c # cs \<Rightarrow> if atom_match a c then rmatch rs cs else [])"
| "rmatch (Rep a lo hi # rs) s =
     concat (map (\<lambda>k. rmatch rs (drop k s)) (rep_counts a lo hi s))"
| "rmatch (Group g # rs) s =
     concat (map (\<lambda>m1. map (\<lambda>m2. (take (length s - length (snd m1)) s # fst m1 @ fst m2, snd m2))
                            (rmatch rs (snd m1)))
                 (rmatch g s))"

text \<open>
  The match object is the list of its groups: group 0, the whole match, comes first.
  \<^verbatim>\<open>None\<close> when the pattern matches at no position.
\<close>

fun re_search :: "re list \<Rightarrow> string \<Rightarrow> string list option" where
  "re_search pat s =
     (case rmatch pat s of
        m # _ \<Rightarrow> Some (take (length s - length (snd m)) s # fst m)
      | [] \<Rightarrow> (case s of [] \<Rightarrow> None | c # cs \<Rightarrow> re_search pat cs))"

text \<open>
  \<^verbatim>\<open>match.group(k)\<close>. The extraction functions read group 0 of a match of the hex
  pattern and groups 1 to 3 of a match of the rgb pattern, which has three groups: the
  index is always in range (lemmas \<open>hex_match_groups\<close> and \<open>rgb_match_groups\<close>).
\<close>

definition group :: "string list \<Rightarrow> nat \<Rightarrow> string" where
  "group m k = m ! k"

text \<open>
  \<^verbatim>\<open>int(s)\<close> for a string of decimal digits, the only strings it is applied to (a group
  of the pattern below matches one to three digits).
\<close>

definition py_int :: "string \<Rightarrow> int" where
  "py_int s = foldl (\<lambda>a c. 10 * a + (int (code c) - 48)) 0 s"

section \<open>The scraper: data extraction\<close>

text \<open>\<^verbatim>\<open>r"#[0-9a-fA-F]{6}"\<close>\<close>

definition hex_colour_pattern :: "re list" where
  "hex_colour_pattern =
     [Atom (Lit CHR ''#''),
      Rep (CharSet [(CHR ''0'', CHR ''9''), (CHR ''a'', CHR ''f''), (CHR ''A'', CHR ''F'')])
        6 (Some 6)]"

definition extract_hex_colour :: "string \<Rightarrow> string option" where
  "extract_hex_colour text =
     (case re_search hex_colour_pattern text of None \<Rightarrow> None | Some m \<Rightarrow> Some (group m 0))"

text \<open>\<^verbatim>\<open>r"rgb\s*(\d{1,3}),\s*(\d{1,3}),\s*(\d{1,3})"\<close>\<close>

definition rgb_colour_pattern :: "re list" where
  "rgb_colour_pattern =
     [Atom (Lit CHR ''r''), Atom (Lit CHR ''g''), Atom (Lit CHR ''b''),
      Rep Space 0 None, Group [Rep Digit 1 (Some 3)], Atom (Lit CHR '',''),
      Rep Space 0 None, Group [Rep Digit 1 (Some 3)], Atom (Lit CHR '',''),
      Rep Space 0 None, Group [Rep Digit 1 (Some 3)]]"

definition extract_rgb_colour :: "string \<Rightarrow> (int \<times> int \<times> int) option" where
  "extract_rgb_colour text =
     (case re_search rgb_colour_pattern text of
        None \<Rightarrow> None
      | Some m \<Rightarrow> Some (py_int (group m 1), py_int (group m 2), py_int (group m 3)))"

section \<open>The scraper: pages, identifiers and files\<close>

text \<open>
  What \<^verbatim>\<open>download_colour_data\<close> reads of a paragraph that
  \<^verbatim>\<open>soup.find_all("p", class_="has-white-color")\<close> returned: the text of its first
  \<^verbatim>\<open>strong\<close> element, if it has one, and the text of the paragraph. Fetching the page
  and parsing the HTML are the work of \<^verbatim>\<open>requests\<close> and \<^verbatim>\<open>BeautifulSoup\<close>; the function
  is given the paragraphs.
\<close>

record p_tag =
  strong :: "string option"
  text' :: string

fun download_colour_data :: "string \<Rightarrow> p_tag list \<Rightarrow> Colour list" where
  "download_colour_data base_colour [] = []"
| "download_colour_data base_colour (p # ps) =
     (case strong p of
        None \<Rightarrow> download_colour_data base_colour ps
      | Some name_text \<Rightarrow>
          (case (extract_hex_colour (text' p), extract_rgb_colour (text' p)) of
             (Some h, Some (r, g, b)) \<Rightarrow>
               \<lparr>name = PStr name_text, base = PStr base_colour, hex = PStr h,
                rgb = PTuple [PInt r, PInt g, PInt b]\<rparr>
               # download_colour_data base_colour ps
           | _ \<Rightarrow> download_colour_data base_colour ps))"

text \<open>The identifier is \<^verbatim>\<open>str(uuid.uuid4())\<close>, a random value: it is an argument here.\<close>

definition add_id_to_colour :: "string \<Rightarrow> Colour \<Rightarrow> ColourId" where
  "add_id_to_colour uid colour =
     \<lparr>name = name colour, base = base colour, hex = hex colour, rgb = rgb colour,
      id' = PStr uid\<rparr>"

definition toJSON :: "ColourId \<Rightarrow> pyval" where
  "toJSON c =
     PDict [(''id'', id' c), (''name'', name c), (''base'', base c), (''hex'', hex c),
            (''rgb'', rgb c)]"

definition create_colours_url :: "string \<Rightarrow> string" where
  "create_colours_url colour_name =
     ''https://www.colorsexplained.com/shades-of-'' @ colour_name @ ''-color-names/''"

definition colour_names :: "string list" where
  "colour_names =
     [''black'', ''blue'', ''gray'', ''green'', ''orange'', ''pink'', ''purple'', ''red'',
      ''yellow'']"

text \<open>
  \<^verbatim>\<open>seq(colours).map(add_id_to_colour)\<close>: \<^verbatim>\<open>uuid4 n\<close> is the \<open>n\<close>-th identifier that the
  run draws.
\<close>

fun add_ids :: "(nat \<Rightarrow> string) \<Rightarrow> nat \<Rightarrow> Colour list \<Rightarrow> ColourId list" where
  "add_ids uuid4 n [] = []"
| "add_ids uuid4 n (c # cs) = add_id_to_colour (uuid4 n) c # add_ids uuid4 (Suc n) cs"

text \<open>
  The main loop of the scraper. \<^verbatim>\<open>fetch url\<close> is the list of paragraphs of the page at
  \<^verbatim>\<open>url\<close>. The result lists the calls of \<^verbatim>\<open>save_to_json_gz_file\<close> that the loop makes:
  the file name and the data of each.
\<close>

fun main_loop ::
  "(string \<Rightarrow> p_tag list) \<Rightarrow> (nat \<Rightarrow> string) \<Rightarrow> nat \<Rightarrow> string list
     \<Rightarrow> (string \<times> pyval) list" where
  "main_loop fetch uuid4 n [] = []"
| "main_loop fetch uuid4 n (colour # rest) =
     (let url = create_colours_url colour;
          colours = download_colour_data colour (fetch url);
          colours_with_ids_json = map toJSON (add_ids uuid4 n colours);
          num_found_colours = length colours_with_ids_json
      in if num_found_colours = 0 then main_loop fetch uuid4 n rest
         else (''./small-files/'' @ colour @ ''.json.gz'', PList colours_with_ids_json)
              # main_loop fetch uuid4 (n + num_found_colours) rest)"

text \<open>
  \<^verbatim>\<open>save_to_json_gz_file\<close> composes three library functions, which are arguments here:
  \<^verbatim>\<open>json.dumps(data, indent=2)\<close>, \<^verbatim>\<open>str.encode("utf-8")\<close> and the writing of a gzip file.
  The result is the content of the file written.
\<close>

definition save_to_json_gz_file ::
  "(pyval \<Rightarrow> 't) \<Rightarrow> ('t \<Rightarrow> 'b) \<Rightarrow> ('b \<Rightarrow> 'f) \<Rightarrow> pyval \<Rightarrow> 'f" where
  "save_to_json_gz_file json_dumps encode_utf8 gzip_write data =
     gzip_write (encode_utf8 (json_dumps data))"

text \<open>
  What \<^verbatim>\<open>json.loads\<close> returns for the text that \<^verbatim>\<open>json.dumps\<close> wrote for a value, by
  the conversion tables of the \<^verbatim>\<open>json\<close> module: a list and a tuple are both written as
  a JSON array, and an array is read as a list; an object is read as a dictionary, and
  strings, integers, booleans and \<^verbatim>\<open>None\<close> are read as they were.
\<close>

fun json_image :: "pyval \<Rightarrow> pyval" where
  "json_image (PList xs) = PList (map json_image xs)"
| "json_image (PTuple xs) = PList (map json_image xs)"
| "json_image (PDict d) = PDict (map (\<lambda>kv. (fst kv, json_image (snd kv))) d)"
| "json_image v = v"

section \<open>The reader: lazy sequences\<close>

text \<open>
  A generator, and a \<^verbatim>\<open>seq\<close> of PyFunctional, produces its items one at a time, and the
  code that produces an item may raise. Its whole run is the list of the items it
  yields and, when the run ends by an exception, that exception.
\<close>

type_synonym 'a gen = "'a list \<times> error option"

definition gen_cons :: "'a \<Rightarrow> 'a gen \<Rightarrow> 'a gen" where
  "gen_cons x g = (x # fst g, snd g)"

text \<open>
  \<^verbatim>\<open>.map(f)\<close>, \<^verbatim>\<open>.filter(p)\<close> and \<^verbatim>\<open>.flatten()\<close> are lazy: an item is transformed when it
  is asked for, so the exception of the first item that fails ends the sequence, and
  the exception that ends the source comes after all its items. \<^verbatim>\<open>.flatten()\<close>
  iterates every item and yields its items; an item that is not iterable raises
  \<^verbatim>\<open>TypeError\<close>.
\<close>

fun seq_map :: "('a \<Rightarrow> error + 'b) \<Rightarrow> 'a gen \<Rightarrow> 'b gen" where
  "seq_map f ([], e) = ([], e)"
| "seq_map f (x # xs, e) =
     (case f x of Inl err \<Rightarrow> ([], Some err) | Inr y \<Rightarrow> gen_cons y (seq_map f (xs, e)))"

fun seq_filter :: "('a \<Rightarrow> error + bool) \<Rightarrow> 'a gen \<Rightarrow> 'a gen" where
  "seq_filter p ([], e) = ([], e)"
| "seq_filter p (x # xs, e) =
     (case p x of
        Inl err \<Rightarrow> ([], Some err)
      | Inr keep \<Rightarrow> if keep then gen_cons x (seq_filter p (xs, e)) else seq_filter p (xs, e))"

fun seq_flatten :: "pyval gen \<Rightarrow> pyval gen" where
  "seq_flatten ([], e) = ([], e)"
| "seq_flatten (x # xs, e) =
     (case py_iter x of
        Inr items \<Rightarrow> (items @ fst (seq_flatten (xs, e)), snd (seq_flatten (xs, e)))
      | Inl err \<Rightarrow> ([], Some err))"

text \<open>\<^verbatim>\<open>.to_list()\<close> runs the sequence to its end: the list, or the exception.\<close>

fun seq_to_list :: "'a gen \<Rightarrow> error + 'a list" where
  "seq_to_list (xs, None) = Inr xs"
| "seq_to_list (xs, Some err) = Inl err"

section \<open>The reader: bucket listing and pipelines\<close>

definition BUCKET_NAME :: string where
  "BUCKET_NAME = ''mccarter-blog''"

definition FILE_PREFIX :: string where
  "FILE_PREFIX = ''2023-02-18/small-files/''"

text \<open>
  The two operations of the boto3 client that the reader calls:
  \<^verbatim>\<open>s3.list_objects_v2(Bucket=b, Prefix=p)\<close>, which returns the listing response, and
  \<^verbatim>\<open>s3.get_object(Bucket=b, Key=k)["Body"].read()\<close>, which returns the bytes of an object.
  Either may raise.
\<close>

record 'b s3_client =
  list_objects_v2 :: "string \<Rightarrow> string \<Rightarrow> error + pyval"
  get_object_body :: "string \<Rightarrow> pyval \<Rightarrow> error + 'b"

text \<open>The loop over \<^verbatim>\<open>response.get("Contents", [])\<close>.\<close>

fun list_keys_loop :: "pyval list \<Rightarrow> pyval gen" where
  "list_keys_loop [] = ([], None)"
| "list_keys_loop (obj # objs) =
     (case py_dict_get obj ''Key'' PNone of
        Inl e \<Rightarrow> ([], Some e)
      | Inr key \<Rightarrow>
          (case py_endswith key ''/'' of
             Inl e \<Rightarrow> ([], Some e)
           | Inr is_dir \<Rightarrow>
               if is_dir then list_keys_loop objs else gen_cons key (list_keys_loop objs)))"

definition list_s3_bucket_file_keys :: "'b s3_client \<Rightarrow> string \<Rightarrow> string \<Rightarrow> pyval gen" where
  "list_s3_bucket_file_keys s3 bucket_name prefix =
     (case list_objects_v2 s3 bucket_name prefix of
        Inl e \<Rightarrow> ([], Some e)
      | Inr response \<Rightarrow>
          (case py_dict_get response ''Contents'' (PList []) of
             Inl e \<Rightarrow> ([], Some e)
           | Inr contents \<Rightarrow>
               (case py_iter contents of
                  Inl e \<Rightarrow> ([], Some e)
                | Inr objs \<Rightarrow> list_keys_loop objs)))"

definition download_s3_file :: "'b s3_client \<Rightarrow> string \<Rightarrow> pyval \<Rightarrow> error + 'b" where
  "download_s3_file s3 bucket_name key = get_object_body s3 bucket_name key"

definition create_colour_from_json :: "pyval \<Rightarrow> error + ColourId" where
  "create_colour_from_json data =
     ebind (py_getkey data ''id'') (\<lambda>i.
     ebind (py_getkey data ''name'') (\<lambda>n.
     ebind (py_getkey data ''base'') (\<lambda>b.
     ebind (py_getkey data ''hex'') (\<lambda>h.
     ebind (py_getkey data ''rgb'') (\<lambda>r.
     Inr \<lparr>name = n, base = b, hex = h, rgb = r, id' = i\<rparr>)))))"

text \<open>
  The functional pipeline. \<^verbatim>\<open>gzip.decompress\<close> and \<^verbatim>\<open>json.loads\<close> are library functions
  that may raise; they are arguments.
\<close>

definition seq_pipeline ::
  "'b s3_client \<Rightarrow> ('b \<Rightarrow> error + 't) \<Rightarrow> ('t \<Rightarrow> error + pyval) \<Rightarrow> error + ColourId list" where
  "seq_pipeline s3 gzip_decompress json_loads =
     seq_to_list
       (seq_filter is_colour_muted
         (seq_filter is_colour_reddish
           (seq_map create_colour_from_json
             (seq_flatten
               (seq_map json_loads
                 (seq_map gzip_decompress
                   (seq_map (\<lambda>key. download_s3_file s3 BUCKET_NAME key)
                     (list_s3_bucket_file_keys s3 BUCKET_NAME FILE_PREFIX))))))))"

text \<open>
  The imperative version: the inner loop over the records of one file and the outer loop
  over the keys, with the list \<^verbatim>\<open>result\<close> as state. An exception ends the run. The
  exception that ends the listing is raised when the loop asks for the key after the
  last one listed.
\<close>

fun colour_loop :: "pyval list \<Rightarrow> ColourId list \<Rightarrow> error + ColourId list" where
  "colour_loop [] result = Inr result"
| "colour_loop (colour_dict # rest) result =
     ebind (create_colour_from_json colour_dict) (\<lambda>colour.
     ebind (is_colour_reddish colour) (\<lambda>reddish.
       if \<not> reddish then colour_loop rest result
       else
         ebind (is_colour_muted colour) (\<lambda>muted.
           if \<not> muted then colour_loop rest result
           else colour_loop rest (result @ [colour]))))"

fun key_loop ::
  "'b s3_client \<Rightarrow> ('b \<Rightarrow> error + 't) \<Rightarrow> ('t \<Rightarrow> error + pyval) \<Rightarrow> pyval list
     \<Rightarrow> ColourId list \<Rightarrow> error + ColourId list" where
  "key_loop s3 gzip_decompress json_loads [] result = Inr result"
| "key_loop s3 gzip_decompress json_loads (s3_key # keys) result =
     ebind (download_s3_file s3 BUCKET_NAME s3_key) (\<lambda>downloaded_file_bytes.
     ebind (gzip_decompress downloaded_file_bytes) (\<lambda>decompressed_text.
     ebind (json_loads decompressed_text) (\<lambda>json_data.
     ebind (py_iter json_data) (\<lambda>colour_dicts.
     ebind (colour_loop colour_dicts result) (\<lambda>result'.
     key_loop s3 gzip_decompress json_loads keys result')))))"

definition imperative_loop ::
  "'b s3_client \<Rightarrow> ('b \<Rightarrow> error + 't) \<Rightarrow> ('t \<Rightarrow> error + pyval) \<Rightarrow> error + ColourId list" where
  "imperative_loop s3 gzip_decompress json_loads =
     (case list_s3_bucket_file_keys s3 BUCKET_NAME FILE_PREFIX of
        (keys, raised) \<Rightarrow>
          ebind (key_loop s3 gzip_decompress json_loads keys []) (\<lambda>result.
            case raised of None \<Rightarrow> Inr result | Some err \<Rightarrow> Inl err))"

text \<open>
  Reading files back: the stages of the reader pipeline from the content of the files to
  the \<^verbatim>\<open>ColourId\<close> records, without the two filters.
\<close>

definition read_json_gz_files ::
  "('f \<Rightarrow> error + 'b) \<Rightarrow> ('b \<Rightarrow> error + pyval) \<Rightarrow> 'f list \<Rightarrow> error + ColourId list" where
  "read_json_gz_files gzip_decompress json_loads contents =
     seq_to_list
       (seq_map create_colour_from_json
         (seq_flatten
           (seq_map json_loads
             (seq_map gzip_decompress (contents, None)))))"

section \<open>Notions used in the statements\<close>

text \<open>
  An occurrence of a hex colour at position \<open>i\<close> of a text: the character \<^verbatim>\<open>#\<close> at \<open>i\<close>,
  followed by six hexadecimal digits, in upper or lower case. What follows the six
  digits is not constrained.
\<close>

definition is_hex_digit :: "char \<Rightarrow> bool" where
  "is_hex_digit c = (c \<in> set ''0123456789abcdefABCDEF'')"

definition hex_at :: "string \<Rightarrow> nat \<Rightarrow> bool" where
  "hex_at text i =
     (i + 7 \<le> length text \<and> text ! i = CHR ''#''
      \<and> list_all is_hex_digit (take 6 (drop (Suc i) text)))"

text \<open>
  An occurrence of an rgb colour at position \<open>i\<close> of a text, with the three groups of
  digits \<open>d1\<close>, \<open>d2\<close> and \<open>d3\<close>: the letters \<^verbatim>\<open>rgb\<close> in any case, a run of white space
  that may be empty, one to three digits, a comma, a run of white space, one to three
  digits, a comma, a run of white space, and one to three digits again. The third group
  takes the digits that are there, up to three.
\<close>

definition digit_group :: "string \<Rightarrow> bool" where
  "digit_group d = (1 \<le> length d \<and> length d \<le> 3 \<and> list_all is_digit d)"

definition rgb_at :: "string \<Rightarrow> nat \<Rightarrow> string \<Rightarrow> string \<Rightarrow> string \<Rightarrow> bool" where
  "rgb_at text i d1 d2 d3 =
     (\<exists>l w1 w2 w3 rest.
        i \<le> length text
        \<and> drop i text = l @ w1 @ d1 @ '','' @ w2 @ d2 @ '','' @ w3 @ d3 @ rest
        \<and> map lower l = ''rgb''
        \<and> list_all is_space w1 \<and> list_all is_space w2 \<and> list_all is_space w3
        \<and> digit_group d1 \<and> digit_group d2 \<and> digit_group d3
        \<and> (length d3 = 3 \<or> rest = [] \<or> \<not> is_digit (hd rest)))"

text \<open>
  The pattern as claim C6 words it: \<^verbatim>\<open>rgb\<close>, one space, and three groups of one to three
  digits separated by commas.
\<close>

definition claimed_rgb_pattern :: "re list" where
  "claimed_rgb_pattern =
     [Atom (Lit CHR ''r''), Atom (Lit CHR ''g''), Atom (Lit CHR ''b''), Atom (Lit CHR '' ''),
      Group [Rep Digit 1 (Some 3)], Atom (Lit CHR '',''),
      Group [Rep Digit 1 (Some 3)], Atom (Lit CHR '',''),
      Group [Rep Digit 1 (Some 3)]]"

text \<open>
  A syntactically valid hex string, and a persisted record (the dictionary that
  \<^verbatim>\<open>toJSON\<close> builds) whose five fields have the types of the data model, with a valid hex
  string and three channels between 0 and the given limit.
\<close>

definition valid_hex :: "string \<Rightarrow> bool" where
  "valid_hex h = (length h = 7 \<and> hd h = CHR ''#'' \<and> list_all is_hex_digit (tl h))"

definition persisted_ok :: "int \<Rightarrow> pyval \<Rightarrow> bool" where
  "persisted_ok limit d =
     (case d of
        PDict kvs \<Rightarrow>
          map fst kvs = [''id'', ''name'', ''base'', ''hex'', ''rgb'']
          \<and> (case map snd kvs of
                [i, n, b, h, c] \<Rightarrow>
                  (case i of PStr _ \<Rightarrow> True | _ \<Rightarrow> False)
                  \<and> (case n of PStr _ \<Rightarrow> True | _ \<Rightarrow> False)
                  \<and> (case b of PStr _ \<Rightarrow> True | _ \<Rightarrow> False)
                  \<and> (case h of PStr hs \<Rightarrow> valid_hex hs | _ \<Rightarrow> False)
                  \<and> (case c of
                        PTuple channels \<Rightarrow>
                          length channels = 3
                          \<and> list_all (\<lambda>v. case v of PInt k \<Rightarrow> 0 \<le> k \<and> k \<le> limit | _ \<Rightarrow> False)
                                channels
                      | _ \<Rightarrow> False)
              | _ \<Rightarrow> False)
      | _ \<Rightarrow> False)"

text \<open>A record with every field replaced by what \<^verbatim>\<open>json.loads\<close> reads back for it.\<close>

definition json_image_colour :: "ColourId \<Rightarrow> ColourId" where
  "json_image_colour c =
     \<lparr>name = json_image (name c), base = json_image (base c), hex = json_image (hex c),
      rgb = json_image (rgb c), id' = json_image (id' c)\<rparr>"

section \<open>Sample data\<close>

text \<open>
  A bucket with the three keys of the notebook's test and the key of the ``directory''
  itself. The content of an object is given as the value that \<^verbatim>\<open>json.loads\<close> returns
  for it.
\<close>

definition sample_s3 :: "pyval s3_client" where
  "sample_s3 =
     \<lparr>list_objects_v2 = (\<lambda>bucket prefix. Inr (PDict [(''KeyCount'', PInt 4), (''Contents'', PList
          [PDict [(''Key'', PStr ''2023-02-18/small-files/''), (''Size'', PInt 0)],
           PDict [(''Key'', PStr ''2023-02-18/small-files/black.json.gz''), (''Size'', PInt 700)],
           PDict [(''Key'', PStr ''2023-02-18/small-files/blue.json.gz''), (''Size'', PInt 900)],
           PDict [(''Key'', PStr ''2023-02-18/small-files/gray.json.gz''), (''Size'', PInt 800)]])])),
      get_object_body = (\<lambda>bucket key.
        if key = PStr ''2023-02-18/small-files/black.json.gz'' then
          Inr (PList
            [PDict [(''id'', PStr ''b6907772-f286-4df1-b699-1d9dee8fdbb2''),
                    (''name'', PStr ''Asphalt''), (''base'', PStr ''black''),
                    (''hex'', PStr ''#0C0404''), (''rgb'', PList [PInt 12, PInt 4, PInt 4])],
             PDict [(''id'', PStr ''5d2c2a0e-51b7-4c0e-8a54-6f3f0c9a7b11''),
                    (''name'', PStr ''Black''), (''base'', PStr ''black''),
                    (''hex'', PStr ''#000000''), (''rgb'', PList [PInt 0, PInt 0, PInt 0])]])
        else if key = PStr ''2023-02-18/small-files/blue.json.gz'' then
          Inr (PList
            [PDict [(''id'', PStr ''9a1f6c3e-2b7d-4e7a-9b57-0d2f4c8e6a22''),
                    (''name'', PStr ''Navy''), (''base'', PStr ''blue''),
                    (''hex'', PStr ''#000080''), (''rgb'', PList [PInt 0, PInt 0, PInt 128])]])
        else if key = PStr ''2023-02-18/small-files/gray.json.gz'' then
          Inr (PList
            [PDict [(''id'', PStr ''3c8e7f10-6a4b-4d2c-8f1e-7b9a0c5d4e33''),
                    (''name'', PStr ''Rose quartz''), (''base'', PStr ''gray''),
                    (''hex'', PStr ''#AA98A9''), (''rgb'', PList [PInt 170, PInt 152, PInt 169])],
             PDict [(''id'', PStr ''e4b0a6d2-0c3f-4b8e-a1d7-2f6c9e8b5a44''),
                    (''name'', PStr ''Taupe''), (''base'', PStr ''gray''),
                    (''hex'', PStr ''#483C32''), (''rgb'', PList [PInt 72, PInt 60, PInt 50])]])
        else Inl KeyError)\<rparr>"

definition asphalt :: ColourId where
  "asphalt =
     \<lparr>name = PStr ''Asphalt'', base = PStr ''black'', hex = PStr ''#0C0404'',
      rgb = PList [PInt 12, PInt 4, PInt 4],
      id' = PStr ''b6907772-f286-4df1-b699-1d9dee8fdbb2''\<rparr>"

definition taupe :: ColourId where
  "taupe =
     \<lparr>name = PStr ''Taupe'', base = PStr ''gray'', hex = PStr ''#483C32'',
      rgb = PList [PInt 72, PInt 60, PInt 50],
      id' = PStr ''e4b0a6d2-0c3f-4b8e-a1d7-2f6c9e8b5a44''\<rparr>"

text \<open>The first colour of the scraper's test, with an identifier.\<close>

definition carmine :: ColourId where
  "carmine =
     add_id_to_colour ''0b1f4c69-7a53-4a52-9a3e-5a1de5f0c001''
       \<lparr>name = PStr ''Carmine'', base = PStr ''red'', hex = PStr ''#960018'',
        rgb = PTuple [PInt 150, PInt 0, PInt 24]\<rparr>"

text \<open>
  A site where only the page of the reds has paragraphs: one complete, one without a
  name, one without an rgb colour, and one with the text of the notebook's two extraction
  tests.
\<close>

definition sample_fetch :: "string \<Rightarrow> p_tag list" where
  "sample_fetch url =
     (if url = create_colours_url ''red'' then
        [\<lparr>strong = Some ''Carmine'', text' = ''Carmine Hex #960018 RGB 150, 0, 24''\<rparr>,
         \<lparr>strong = None, text' = ''Hex #8D021F RGB 141, 2, 31''\<rparr>,
         \<lparr>strong = Some ''No colour'', text' = ''Hex #9F1D35''\<rparr>,
         \<lparr>strong = Some ''Test'',
          text' = ''This text contains a color code: #FFA500 rgb 1, 2, 342 and more text after''\<rparr>]
      else [])"

definition sample_uuid4 :: "nat \<Rightarrow> string" where
  "sample_uuid4 n =
     (if n = 0 then ''0b1f4c69-7a53-4a52-9a3e-5a1de5f0c001''
      else ''b6907772-f286-4df1-b699-1d9dee8fdbb2'')"

section \<open>Auxiliary definitions for the proofs\<close>

text \<open>One run after another: the second starts only if the first ends without exception.\<close>

definition gen_append :: "'a gen \<Rightarrow> 'a gen \<Rightarrow> 'a gen" where
  "gen_append g h = (case snd g of None \<Rightarrow> (fst g @ fst h, snd h) | Some err \<Rightarrow> g)"

text \<open>The stages of the functional pipeline after, and up to, \<^verbatim>\<open>.flatten()\<close>.\<close>

definition record_stages :: "pyval gen \<Rightarrow> ColourId gen" where
  "record_stages g =
     seq_filter is_colour_muted (seq_filter is_colour_reddish (seq_map create_colour_from_json g))"

definition file_stages ::
  "'b s3_client \<Rightarrow> ('b \<Rightarrow> error + 't) \<Rightarrow> ('t \<Rightarrow> error + pyval) \<Rightarrow> pyval gen \<Rightarrow> pyval gen" where
  "file_stages s3 gzip_decompress json_loads g =
     seq_flatten
       (seq_map json_loads
         (seq_map gzip_decompress (seq_map (\<lambda>key. download_s3_file s3 BUCKET_NAME key) g)))"

text \<open>The match object for a match that starts at position \<open>i\<close>, if the pattern matches there.\<close>

definition match_at :: "re list \<Rightarrow> string \<Rightarrow> nat \<Rightarrow> string list option" where
  "match_at pat s i =
     (case rmatch pat (drop i s) of
        [] \<Rightarrow> None
      | m # _ \<Rightarrow> Some (take (length s - i - length (snd m)) (drop i s) # fst m))"

text \<open>
  What the matcher does on the rgb pattern, written with \<^verbatim>\<open>takeWhile\<close> and \<^verbatim>\<open>dropWhile\<close>:
  a group of digits before a comma, the last group of digits, the three groups of a match
  at the start of a string, and the groups of the first way of matching.
\<close>

definition digits_then_comma :: "string \<Rightarrow> (string \<times> string) option" where
  "digits_then_comma s =
     (let d = takeWhile is_digit s
      in if 1 \<le> length d \<and> length d \<le> 3 \<and> take 1 (dropWhile is_digit s) = '',''
         then Some (d, drop (Suc (length d)) s) else None)"

definition last_digits :: "string \<Rightarrow> string option" where
  "last_digits s =
     (let n = length (takeWhile is_digit s) in if n = 0 then None else Some (take (min 3 n) s))"

definition rgb_scan :: "string \<Rightarrow> (string \<times> string \<times> string) option" where
  "rgb_scan t =
     (case t of
        c1 # c2 # c3 # s0 \<Rightarrow>
          if lower c1 = CHR ''r'' \<and> lower c2 = CHR ''g'' \<and> lower c3 = CHR ''b'' then
            (case digits_then_comma (dropWhile is_space s0) of
               None \<Rightarrow> None
             | Some (d1, s1) \<Rightarrow>
                 (case digits_then_comma (dropWhile is_space s1) of
                    None \<Rightarrow> None
                  | Some (d2, s2) \<Rightarrow>
                      (case last_digits (dropWhile is_space s2) of
                         None \<Rightarrow> None
                       | Some d3 \<Rightarrow> Some (d1, d2, d3))))
          else None
      | _ \<Rightarrow> None)"

definition first_groups :: "(string list \<times> string) list \<Rightarrow> string list option" where
  "first_groups ms = (case ms of [] \<Rightarrow> None | m # _ \<Rightarrow> Some (fst m))"

text \<open>What every colour that \<^verbatim>\<open>download_colour_data\<close> yields looks like.\<close>

definition scraped_ok :: "Colour \<Rightarrow> bool" where
  "scraped_ok c =
     (\<exists>n b h r g bl.
        c = \<lparr>name = PStr n, base = PStr b, hex = PStr h, rgb = PTuple [PInt r, PInt g, PInt bl]\<rparr>
        \<and> valid_hex h
        \<and> 0 \<le> r \<and> r \<le> 999 \<and> 0 \<le> g \<and> g \<le> 999 \<and> 0 \<le> bl \<and> bl \<le> 999)"

section \<open>Properties of the colour predicates\<close>

lemma is_colour_reddish_tuple:
  "is_colour_reddish (c\<lparr>rgb := PTuple [PInt r, PInt g, PInt b]\<rparr>) = Inr (r > g \<and> r > b)"
  by (simp add: is_colour_reddish_def ebind_def)

lemma is_colour_reddish_list:
  "is_colour_reddish (c\<lparr>rgb := PList [PInt r, PInt g, PInt b]\<rparr>) = Inr (r > g \<and> r > b)"
  by (simp add: is_colour_reddish_def ebind_def)

text \<open>
  Claim C1, as amended. For a colour whose \<^verbatim>\<open>rgb\<close> holds three integers (as a tuple, the
  way the scraper builds it, or as a list, the way \<^verbatim>\<open>json.loads\<close> returns it),
  \<^verbatim>\<open>is_colour_reddish\<close> returns true exactly when the red channel is strictly greater
  than the green and the blue one. It returns true for rgb (150, 0, 24), and it returns
  true for rgb (12, 4, 4) as well, since 12 is greater than 4.
\<close>

theorem is_colour_reddish_red_strictly_greatest:
  "is_colour_reddish (c\<lparr>rgb := PTuple [PInt r, PInt g, PInt b]\<rparr>) = Inr (r > g \<and> r > b)
   \<and> is_colour_reddish (c\<lparr>rgb := PList [PInt r, PInt g, PInt b]\<rparr>) = Inr (r > g \<and> r > b)
   \<and> is_colour_reddish (c\<lparr>rgb := PTuple [PInt 150, PInt 0, PInt 24]\<rparr>) = Inr True
   \<and> is_colour_reddish (c\<lparr>rgb := PTuple [PInt 12, PInt 4, PInt 4]\<rparr>) = Inr True"
  by (simp add: is_colour_reddish_tuple is_colour_reddish_list)

text \<open>
  Claim C1 as stated says that \<^verbatim>\<open>is_colour_reddish\<close> returns false for rgb (12, 4, 4).
  It returns true: this is the colour ``Asphalt'' that the reader notebook prints as the
  first record that passed both filters.
\<close>

theorem is_colour_reddish_asphalt_counterexample:
  "is_colour_reddish
     \<lparr>name = PStr ''Asphalt'', base = PStr ''black'', hex = PStr ''#0C0404'',
      rgb = PTuple [PInt 12, PInt 4, PInt 4],
      id' = PStr ''b6907772-f286-4df1-b699-1d9dee8fdbb2''\<rparr> \<noteq> Inr False"
  by (simp add: is_colour_reddish_def ebind_def)

lemma is_colour_muted_tuple:
  "is_colour_muted (c\<lparr>rgb := PTuple [PInt r, PInt g, PInt b]\<rparr>)
     = Inr (r < 128 \<and> g < 128 \<and> b < 128)"
  by (simp add: is_colour_muted_def ebind_def)

lemma is_colour_muted_list:
  "is_colour_muted (c\<lparr>rgb := PList [PInt r, PInt g, PInt b]\<rparr>)
     = Inr (r < 128 \<and> g < 128 \<and> b < 128)"
  by (simp add: is_colour_muted_def ebind_def)

text \<open>
  Claim C8. For a colour whose \<^verbatim>\<open>rgb\<close> holds three integers (as a tuple or as a list),
  \<^verbatim>\<open>is_colour_muted\<close> returns true exactly when all three channels are strictly less
  than 128: true when all are below 128, false as soon as one is 128 or more.
\<close>

theorem is_colour_muted_all_below_128:
  "is_colour_muted (c\<lparr>rgb := PTuple [PInt r, PInt g, PInt b]\<rparr>)
     = Inr (r < 128 \<and> g < 128 \<and> b < 128)
   \<and> is_colour_muted (c\<lparr>rgb := PList [PInt r, PInt g, PInt b]\<rparr>)
     = Inr (r < 128 \<and> g < 128 \<and> b < 128)"
  by (simp add: is_colour_muted_tuple is_colour_muted_list)

section \<open>Lazy sequences: helper lemmas\<close>

lemma ebind_Inl [simp]: "ebind (Inl e) f = Inl e"
  by (simp add: ebind_def)

lemma ebind_Inr [simp]: "ebind (Inr x) f = f x"
  by (simp add: ebind_def)

lemma ebind_assoc: "ebind (ebind m f) g = ebind m (\<lambda>x. ebind (f x) g)"
  by (cases m) simp_all

lemma gen_append_Nil [simp]: "gen_append ([], None) h = h"
  by (simp add: gen_append_def)

lemma gen_append_raised: "snd g \<noteq> None \<Longrightarrow> gen_append g h = g"
  by (auto simp: gen_append_def split: option.splits)

lemma gen_append_cons [simp]: "gen_append (gen_cons x g) h = gen_cons x (gen_append g h)"
  by (simp add: gen_append_def gen_cons_def split: option.splits)

lemma gen_append_list: "(xs @ ys, e) = gen_append (xs, None) (ys, e)"
  by (simp add: gen_append_def)

lemma snd_gen_cons [simp]: "snd (gen_cons x g) = snd g"
  by (simp add: gen_cons_def)

lemma fst_gen_cons [simp]: "fst (gen_cons x g) = x # fst g"
  by (simp add: gen_cons_def)

lemma seq_map_raised: "snd (seq_map f (xs, Some err)) \<noteq> None"
  by (induction xs) (auto split: sum.splits)

lemma seq_filter_raised: "snd (seq_filter p (xs, Some err)) \<noteq> None"
  by (induction xs) (auto split: sum.splits)

lemma seq_flatten_raised: "snd (seq_flatten (xs, Some err)) \<noteq> None"
  by (induction xs) (auto split: sum.splits)

lemma seq_map_append_list:
  "seq_map f (xs @ ys, e) = gen_append (seq_map f (xs, None)) (seq_map f (ys, e))"
  by (induction xs) (auto split: sum.splits simp: gen_append_raised)

lemma seq_filter_append_list:
  "seq_filter p (xs @ ys, e) = gen_append (seq_filter p (xs, None)) (seq_filter p (ys, e))"
  by (induction xs) (auto split: sum.splits simp: gen_append_raised)

lemma seq_flatten_append_list:
  "seq_flatten (xs @ ys, e) = gen_append (seq_flatten (xs, None)) (seq_flatten (ys, e))"
  by (induction xs) (auto split: sum.splits option.splits simp: gen_append_def gen_cons_def)

lemma seq_map_append:
  "seq_map f (gen_append g h) = gen_append (seq_map f g) (seq_map f h)"
proof (cases g)
  case (Pair xs e)
  show ?thesis
  proof (cases e)
    case None
    with Pair show ?thesis
      by (simp add: gen_append_def [of "(xs, None)"] seq_map_append_list)
  next
    case (Some err)
    with Pair show ?thesis
      by (simp add: gen_append_raised seq_map_raised)
  qed
qed

lemma seq_filter_append:
  "seq_filter p (gen_append g h) = gen_append (seq_filter p g) (seq_filter p h)"
proof (cases g)
  case (Pair xs e)
  show ?thesis
  proof (cases e)
    case None
    with Pair show ?thesis
      by (simp add: gen_append_def [of "(xs, None)"] seq_filter_append_list)
  next
    case (Some err)
    with Pair show ?thesis
      by (simp add: gen_append_raised seq_filter_raised)
  qed
qed

lemma seq_flatten_append:
  "seq_flatten (gen_append g h) = gen_append (seq_flatten g) (seq_flatten h)"
proof (cases g)
  case (Pair xs e)
  show ?thesis
  proof (cases e)
    case None
    with Pair show ?thesis
      by (simp add: gen_append_def [of "(xs, None)"] seq_flatten_append_list)
  next
    case (Some err)
    with Pair show ?thesis
      by (simp add: gen_append_raised seq_flatten_raised)
  qed
qed

lemma seq_to_list_append:
  "seq_to_list (gen_append g h) =
     ebind (seq_to_list g) (\<lambda>xs. ebind (seq_to_list h) (\<lambda>ys. Inr (xs @ ys)))"
proof (cases g)
  case (Pair xs e)
  then show ?thesis
    by (cases e; cases h; cases "snd h") (auto simp: gen_append_def ebind_def)
qed

lemma seq_map_gen_cons [simp]:
  "seq_map f (gen_cons x g) =
     (case f x of Inl err \<Rightarrow> ([], Some err) | Inr y \<Rightarrow> gen_cons y (seq_map f g))"
  by (cases g) (auto simp: gen_cons_def split: sum.splits)

lemma seq_filter_gen_cons [simp]:
  "seq_filter p (gen_cons x g) =
     (case p x of
        Inl err \<Rightarrow> ([], Some err)
      | Inr keep \<Rightarrow> if keep then gen_cons x (seq_filter p g) else seq_filter p g)"
  by (cases g) (auto simp: gen_cons_def split: sum.splits)

lemma seq_flatten_gen_cons:
  "seq_flatten (gen_cons x g) =
     (case py_iter x of
        Inr items \<Rightarrow> gen_append (items, None) (seq_flatten g)
      | Inl err \<Rightarrow> ([], Some err))"
  by (cases g) (simp add: gen_cons_def gen_append_def split: sum.splits)

lemma seq_to_list_cons:
  "seq_to_list (gen_cons x g) = ebind (seq_to_list g) (\<lambda>ys. Inr (x # ys))"
  by (cases g; cases "snd g") (auto simp: gen_cons_def ebind_def)

section \<open>The bucket listing\<close>

lemma py_endswith_Inr: "py_endswith key suf = Inr b \<Longrightarrow> \<exists>k. key = PStr k \<and> b = endswith k suf"
  by (cases key) simp_all

lemma list_keys_loop_yields:
  "key \<in> set (fst (list_keys_loop objs)) \<Longrightarrow>
     (\<exists>obj \<in> set objs. py_dict_get obj ''Key'' PNone = Inr key)
     \<and> (\<exists>k. key = PStr k \<and> \<not> endswith k ''/'')"
proof (induction objs)
  case Nil
  then show ?case by simp
next
  case (Cons obj objs)
  then show ?case
    by (auto split: sum.splits if_splits dest: py_endswith_Inr)
qed

lemma list_keys_loop_well_formed:
  "list_all2 (\<lambda>obj k. py_dict_get obj ''Key'' PNone = Inr (PStr k)) objs ks \<Longrightarrow>
     list_keys_loop objs = (map PStr (filter (\<lambda>k. \<not> endswith k ''/'') ks), None)"
  by (induction objs ks rule: list_all2_induct) (simp_all add: gen_cons_def)

text \<open>
  Claim C7. Whatever the client answers to the listing request, every key that
  \<^verbatim>\<open>list_s3_bucket_file_keys\<close> yields is the \<^verbatim>\<open>Key\<close> of an object in the \<^verbatim>\<open>Contents\<close> of the
  response (so it carries the requested prefix whenever the keys of the response do), and
  it is a string that does not end in \<^verbatim>\<open>/\<close>: the keys that end in \<^verbatim>\<open>/\<close> are skipped.
\<close>

theorem list_s3_bucket_file_keys_yields_file_keys:
  "\<forall>key \<in> set (fst (list_s3_bucket_file_keys s3 bucket_name prefix)).
     (\<exists>response contents objs obj.
        list_objects_v2 s3 bucket_name prefix = Inr response
        \<and> py_dict_get response ''Contents'' (PList []) = Inr contents
        \<and> py_iter contents = Inr objs
        \<and> obj \<in> set objs
        \<and> py_dict_get obj ''Key'' PNone = Inr key)
     \<and> (\<exists>k. key = PStr k \<and> \<not> endswith k ''/'')"
proof
  fix key
  assume yielded: "key \<in> set (fst (list_s3_bucket_file_keys s3 bucket_name prefix))"
  then obtain response contents objs where
    resp: "list_objects_v2 s3 bucket_name prefix = Inr response"
    and cont: "py_dict_get response ''Contents'' (PList []) = Inr contents"
    and iter: "py_iter contents = Inr objs"
    and loop: "key \<in> set (fst (list_keys_loop objs))"
    by (auto simp: list_s3_bucket_file_keys_def split: sum.splits)
  from list_keys_loop_yields [OF loop] resp cont iter
  show "(\<exists>response contents objs obj.
        list_objects_v2 s3 bucket_name prefix = Inr response
        \<and> py_dict_get response ''Contents'' (PList []) = Inr contents
        \<and> py_iter contents = Inr objs
        \<and> obj \<in> set objs
        \<and> py_dict_get obj ''Key'' PNone = Inr key)
     \<and> (\<exists>k. key = PStr k \<and> \<not> endswith k ''/'')"
    by blast
qed

theorem list_s3_bucket_file_keys_witness:
  "list_s3_bucket_file_keys sample_s3 BUCKET_NAME FILE_PREFIX =
     ([PStr ''2023-02-18/small-files/black.json.gz'',
       PStr ''2023-02-18/small-files/blue.json.gz'',
       PStr ''2023-02-18/small-files/gray.json.gz''], None)
   \<and> (\<exists>k. PStr ''2023-02-18/small-files/black.json.gz'' = PStr k \<and> \<not> endswith k ''/'')"
proof -
  have run: "list_s3_bucket_file_keys sample_s3 BUCKET_NAME FILE_PREFIX =
     ([PStr ''2023-02-18/small-files/black.json.gz'',
       PStr ''2023-02-18/small-files/blue.json.gz'',
       PStr ''2023-02-18/small-files/gray.json.gz''], None)"
    by (simp add: list_s3_bucket_file_keys_def sample_s3_def gen_cons_def endswith_def)
  have "PStr ''2023-02-18/small-files/black.json.gz''
      \<in> set (fst (list_s3_bucket_file_keys sample_s3 BUCKET_NAME FILE_PREFIX))"
    by (simp add: run)
  with list_s3_bucket_file_keys_yields_file_keys [of sample_s3 BUCKET_NAME FILE_PREFIX] run
  show ?thesis by blast
qed

section \<open>The two pipelines\<close>

lemma record_stages_append:
  "record_stages (gen_append g h) = gen_append (record_stages g) (record_stages h)"
  by (simp add: record_stages_def seq_map_append seq_filter_append)

lemma colour_loop_stages:
  "colour_loop items result =
     ebind (seq_to_list (record_stages (items, None))) (\<lambda>ys. Inr (result @ ys))"
proof (induction items arbitrary: result)
  case Nil
  show ?case by (simp add: record_stages_def)
next
  case (Cons d ds)
  show ?case
  proof (cases "create_colour_from_json d")
    case (Inl err)
    then show ?thesis by (simp add: record_stages_def)
  next
    case (Inr colour)
    note created = this
    show ?thesis
    proof (cases "is_colour_reddish colour")
      case (Inl err)
      with created show ?thesis by (simp add: record_stages_def)
    next
      case (Inr reddish)
      note red = this
      show ?thesis
      proof (cases reddish)
        case False
        with created red Cons.IH [of result] show ?thesis
          by (simp add: record_stages_def)
      next
        case True
        note is_red = this
        show ?thesis
        proof (cases "is_colour_muted colour")
          case (Inl err)
          with created red is_red show ?thesis by (simp add: record_stages_def)
        next
          case (Inr muted)
          with created red is_red Cons.IH [of result] Cons.IH [of "result @ [colour]"]
          show ?thesis
            by (cases muted)
              (simp_all add: record_stages_def seq_to_list_cons ebind_assoc)
        qed
      qed
    qed
  qed
qed

lemma key_loop_stages:
  "ebind (key_loop s3 gz jl ks result) (\<lambda>r. case e of None \<Rightarrow> Inr r | Some err \<Rightarrow> Inl err) =
     ebind (seq_to_list (record_stages (file_stages s3 gz jl (ks, e)))) (\<lambda>ys. Inr (result @ ys))"
proof (induction ks arbitrary: result)
  case Nil
  show ?case by (cases e) (simp_all add: file_stages_def record_stages_def)
next
  case (Cons k ks)
  show ?case
  proof (cases "download_s3_file s3 BUCKET_NAME k")
    case (Inl err)
    then show ?thesis by (simp add: file_stages_def record_stages_def)
  next
    case (Inr bytes)
    note dl = this
    show ?thesis
    proof (cases "gz bytes")
      case (Inl err)
      with dl show ?thesis by (simp add: file_stages_def record_stages_def)
    next
      case (Inr dtext)
      note unz = this
      show ?thesis
      proof (cases "jl dtext")
        case (Inl err)
        with dl unz show ?thesis by (simp add: file_stages_def record_stages_def)
      next
        case (Inr json_data)
        note parsed = this
        have unfold: "file_stages s3 gz jl (k # ks, e) =
            (case py_iter json_data of
               Inr items \<Rightarrow> gen_append (items, None) (file_stages s3 gz jl (ks, e))
             | Inl err \<Rightarrow> ([], Some err))"
          using dl unz parsed
          by (simp add: file_stages_def seq_flatten_gen_cons split: sum.splits)
        show ?thesis
        proof (cases "py_iter json_data")
          case (Inl err)
          with dl unz parsed unfold show ?thesis
            by (simp add: record_stages_def)
        next
          case (Inr items)
          with dl unz parsed unfold Cons.IH show ?thesis
            by (simp add: record_stages_append seq_to_list_append colour_loop_stages
                  ebind_assoc)
        qed
      qed
    qed
  qed
qed

text \<open>
  Claim C9. For every client (every listing and every content of every object) and
  whatever \<^verbatim>\<open>gzip.decompress\<close> and \<^verbatim>\<open>json.loads\<close> return or raise, the functional
  pipeline and the imperative loops end the same way: with the same list of \<^verbatim>\<open>ColourId\<close>
  records in the same order, or with the same exception.
\<close>

theorem seq_pipeline_eq_imperative_loop:
  "seq_pipeline s3 gzip_decompress json_loads = imperative_loop s3 gzip_decompress json_loads"
proof (cases "list_s3_bucket_file_keys s3 BUCKET_NAME FILE_PREFIX")
  case (Pair ks e)
  have "imperative_loop s3 gzip_decompress json_loads =
      ebind (key_loop s3 gzip_decompress json_loads ks [])
        (\<lambda>r. case e of None \<Rightarrow> Inr r | Some err \<Rightarrow> Inl err)"
    by (simp add: imperative_loop_def Pair)
  also have "\<dots> =
      ebind (seq_to_list (record_stages (file_stages s3 gzip_decompress json_loads (ks, e))))
        (\<lambda>ys. Inr ([] @ ys))"
    by (rule key_loop_stages)
  also have "\<dots> = seq_pipeline s3 gzip_decompress json_loads"
    by (cases "seq_to_list (record_stages (file_stages s3 gzip_decompress json_loads (ks, e)))")
      (simp_all add: seq_pipeline_def record_stages_def file_stages_def Pair)
  finally show ?thesis by simp
qed

theorem seq_pipeline_eq_imperative_loop_witness:
  "seq_pipeline sample_s3 Inr Inr = Inr [asphalt, taupe]
   \<and> imperative_loop sample_s3 Inr Inr = Inr [asphalt, taupe]"
proof -
  have "imperative_loop sample_s3 Inr Inr = Inr [asphalt, taupe]"
    by code_simp
  with seq_pipeline_eq_imperative_loop [of sample_s3 Inr Inr] show ?thesis
    by simp
qed

section \<open>Writing the files and reading them back\<close>

lemma create_colour_from_json_image:
  "create_colour_from_json (json_image (toJSON c)) = Inr (json_image_colour c)"
  by (simp add: create_colour_from_json_def toJSON_def json_image_colour_def)

lemma seq_map_all_ok:
  "(\<And>x. f (h x) = Inr (g x)) \<Longrightarrow> seq_map f (map h xs, e) = (map g xs, e)"
  by (induction xs) (simp_all add: gen_cons_def)

lemma read_one_file:
  assumes gz: "\<And>b. gzip_decompress (gzip_write b) = Inr b"
    and js: "\<And>v. json_loads (encode_utf8 (json_dumps v)) = Inr (json_image v)"
  shows "seq_flatten (seq_map json_loads (seq_map gzip_decompress
           (map (\<lambda>cs. save_to_json_gz_file json_dumps encode_utf8 gzip_write
                         (PList (map toJSON cs))) css, None)))
         = (map (\<lambda>c. json_image (toJSON c)) (concat css), None)"
proof (induction css)
  case Nil
  show ?case by simp
next
  case (Cons cs css)
  then show ?case
    by (simp add: save_to_json_gz_file_def gz js seq_flatten_gen_cons gen_append_def comp_def)
qed

lemma read_json_gz_files_saved:
  assumes gz: "\<And>b. gzip_decompress (gzip_write b) = Inr b"
    and js: "\<And>v. json_loads (encode_utf8 (json_dumps v)) = Inr (json_image v)"
  shows "read_json_gz_files gzip_decompress json_loads
           (map (\<lambda>cs. save_to_json_gz_file json_dumps encode_utf8 gzip_write
                         (PList (map toJSON cs))) css)
         = Inr (map json_image_colour (concat css))"
proof -
  have "seq_map create_colour_from_json (map (\<lambda>c. json_image (toJSON c)) (concat css), None)
      = (map json_image_colour (concat css), None)"
    by (rule seq_map_all_ok) (rule create_colour_from_json_image)
  with gz js show ?thesis
    by (simp add: read_json_gz_files_def read_one_file)
qed

lemma json_image_scraped_colour:
  "json_image_colour
     (add_id_to_colour uid
        \<lparr>name = PStr n, base = PStr b, hex = PStr h, rgb = PTuple [PInt r, PInt g, PInt bl]\<rparr>)
   = \<lparr>name = PStr n, base = PStr b, hex = PStr h, rgb = PList [PInt r, PInt g, PInt bl],
      id' = PStr uid\<rparr>"
  by (simp add: json_image_colour_def add_id_to_colour_def)

text \<open>
  Claim C4, as amended. Assume of the libraries that \<^verbatim>\<open>gzip.decompress\<close> returns what was
  written to the gzip file and that \<^verbatim>\<open>json.loads\<close> reads the encoded text of
  \<^verbatim>\<open>json.dumps\<close> by the conversion tables of the \<^verbatim>\<open>json\<close> module. Then saving lists of
  \<^verbatim>\<open>ColourId\<close> records, one file per list, and reading the files back yields the records of
  all files in order, each field being what \<^verbatim>\<open>json.loads\<close> reads back for the original
  field. For a record as the scraper builds it, \<^verbatim>\<open>id\<close>, \<^verbatim>\<open>name\<close>, \<^verbatim>\<open>base\<close> and \<^verbatim>\<open>hex\<close> are
  equal to the original ones, and \<^verbatim>\<open>rgb\<close> holds the same three channels in the same
  order, as a list where the original holds a tuple.
\<close>

theorem read_back_saved_colours:
  assumes gz: "\<And>b. gzip_decompress (gzip_write b) = Inr b"
    and js: "\<And>v. json_loads (encode_utf8 (json_dumps v)) = Inr (json_image v)"
  shows "read_json_gz_files gzip_decompress json_loads
           (map (\<lambda>cs. save_to_json_gz_file json_dumps encode_utf8 gzip_write
                         (PList (map toJSON cs))) css)
         = Inr (map json_image_colour (concat css))
     \<and> json_image_colour
           (add_id_to_colour uid
              \<lparr>name = PStr n, base = PStr b, hex = PStr h,
               rgb = PTuple [PInt r, PInt g, PInt bl]\<rparr>)
         = \<lparr>name = PStr n, base = PStr b, hex = PStr h, rgb = PList [PInt r, PInt g, PInt bl],
            id' = PStr uid\<rparr>"
proof
  from gz js show "read_json_gz_files gzip_decompress json_loads
           (map (\<lambda>cs. save_to_json_gz_file json_dumps encode_utf8 gzip_write
                         (PList (map toJSON cs))) css)
         = Inr (map json_image_colour (concat css))"
    by (rule read_json_gz_files_saved)
  show "json_image_colour
           (add_id_to_colour uid
              \<lparr>name = PStr n, base = PStr b, hex = PStr h,
               rgb = PTuple [PInt r, PInt g, PInt bl]\<rparr>)
         = \<lparr>name = PStr n, base = PStr b, hex = PStr h, rgb = PList [PInt r, PInt g, PInt bl],
            id' = PStr uid\<rparr>"
    by (rule json_image_scraped_colour)
qed

theorem read_back_saved_colours_witness:
  "read_json_gz_files Inr (\<lambda>v. Inr (json_image v))
     (map (\<lambda>cs. save_to_json_gz_file (\<lambda>v. v) (\<lambda>t. t) (\<lambda>b. b) (PList (map toJSON cs)))
        [[carmine]])
   = Inr [\<lparr>name = PStr ''Carmine'', base = PStr ''red'', hex = PStr ''#960018'',
           rgb = PList [PInt 150, PInt 0, PInt 24],
           id' = PStr ''0b1f4c69-7a53-4a52-9a3e-5a1de5f0c001''\<rparr>]"
  using read_back_saved_colours
    [of Inr "\<lambda>b. b" "\<lambda>v. Inr (json_image v)" "\<lambda>t. t" "\<lambda>v. v" "[[carmine]]"]
  by (simp add: carmine_def json_image_scraped_colour)

text \<open>
  Claim C4 as stated says that every field read back is equal to the original. The
  \<^verbatim>\<open>rgb\<close> that is read back is the list \<^verbatim>\<open>[150, 0, 24]\<close>, the original is the tuple
  \<^verbatim>\<open>(150, 0, 24)\<close>, and in Python a list is never equal to a tuple. The libraries are
  taken here at their simplest: the file holds the value itself.
\<close>

theorem read_back_not_identical_counterexample:
  "read_json_gz_files Inr (\<lambda>v. Inr (json_image v))
     [save_to_json_gz_file (\<lambda>v. v) (\<lambda>t. t) (\<lambda>b. b) (PList (map toJSON [carmine]))]
   \<noteq> Inr [carmine]"
  by (simp add: read_json_gz_files_def save_to_json_gz_file_def seq_flatten_gen_cons
      gen_append_def gen_cons_def toJSON_def carmine_def add_id_to_colour_def
      create_colour_from_json_def)

text \<open>The same holds whatever the libraries are, as long as they are as assumed above.\<close>

lemma read_back_never_identical:
  assumes gz: "\<And>b. gzip_decompress (gzip_write b) = Inr b"
    and js: "\<And>v. json_loads (encode_utf8 (json_dumps v)) = Inr (json_image v)"
  shows "read_json_gz_files gzip_decompress json_loads
           [save_to_json_gz_file json_dumps encode_utf8 gzip_write (PList (map toJSON [carmine]))]
         \<noteq> Inr [carmine]"
  using gz js
    read_json_gz_files_saved
      [of gzip_decompress gzip_write json_loads encode_utf8 json_dumps "[[carmine]]"]
  by (simp add: carmine_def json_image_colour_def add_id_to_colour_def)

section \<open>Characters\<close>

lemma code_eq_iff: "code c = code d \<longleftrightarrow> c = d"
  by (simp add: code_def)

lemma code_less: "code c < 256"
  by (simp add: code_def)

lemma code_char_of: "code (char_of n) = n mod 256"
  by (simp add: code_def)

lemma code_lower:
  "code (lower c) =
     (if (65 \<le> code c \<and> code c \<le> 90) \<or> (192 \<le> code c \<and> code c \<le> 222 \<and> code c \<noteq> 215)
      then code c + 32 else code c)"
  by (auto simp: lower_def code_char_of)

lemma code_unlower:
  "code (unlower c) =
     (if (97 \<le> code c \<and> code c \<le> 122) \<or> (224 \<le> code c \<and> code c \<le> 254 \<and> code c \<noteq> 247)
      then code c - 32 else code c)"
  using code_less [of c] by (auto simp: unlower_def code_char_of)

lemma is_hex_digit_code:
  "is_hex_digit c \<longleftrightarrow>
     (48 \<le> code c \<and> code c \<le> 57) \<or> (97 \<le> code c \<and> code c \<le> 102) \<or> (65 \<le> code c \<and> code c \<le> 70)"
proof -
  have "is_hex_digit c \<longleftrightarrow> code c \<in> code ` set ''0123456789abcdefABCDEF''"
    unfolding is_hex_digit_def by (auto simp: code_eq_iff)
  also have "\<dots> \<longleftrightarrow> (48 \<le> code c \<and> code c \<le> 57) \<or> (97 \<le> code c \<and> code c \<le> 102) \<or> (65 \<le> code c \<and> code c \<le> 70)"
    by (simp add: code_def) arith
  finally show ?thesis .
qed

lemma atom_match_hex:
  "atom_match (CharSet [(CHR ''0'', CHR ''9''), (CHR ''a'', CHR ''f''), (CHR ''A'', CHR ''F'')]) c
     = is_hex_digit c"
  unfolding is_hex_digit_code atom_match.simps in_ranges_def
  using code_less [of c]
  by (simp add: code_lower code_unlower) (simp add: code_def, arith)

lemma lit_hash: "atom_match (Lit CHR ''#'') c \<longleftrightarrow> c = CHR ''#''"
proof -
  have "atom_match (Lit CHR ''#'') c \<longleftrightarrow> code (lower c) = code (lower CHR ''#'')"
    by (simp add: code_eq_iff)
  also have "\<dots> \<longleftrightarrow> code c = code CHR ''#''"
  proof -
    have "code CHR ''#'' = 35" by (simp add: code_def)
    then show ?thesis by (auto simp: code_lower)
  qed
  finally show ?thesis by (simp add: code_eq_iff)
qed

lemma lit_comma: "atom_match (Lit CHR '','') c \<longleftrightarrow> c = CHR '',''"
proof -
  have "atom_match (Lit CHR '','') c \<longleftrightarrow> code (lower c) = code (lower CHR '','')"
    by (simp add: code_eq_iff)
  also have "\<dots> \<longleftrightarrow> code c = code CHR '',''"
  proof -
    have "code CHR '','' = 44" by (simp add: code_def)
    then show ?thesis by (auto simp: code_lower)
  qed
  finally show ?thesis by (simp add: code_eq_iff)
qed

lemma digit_not_space: "is_digit c \<Longrightarrow> \<not> is_space c"
  by (auto simp: is_digit_def is_space_def)

lemma comma_not_digit: "\<not> is_digit CHR '',''"
  by (simp add: is_digit_def code_def)

lemma atom_match_Space: "atom_match Space = is_space"
  by (rule ext) simp

lemma atom_match_Digit: "atom_match Digit = is_digit"
  by (rule ext) simp

lemma lower_rgb:
  "lower CHR ''r'' = CHR ''r''" "lower CHR ''g'' = CHR ''g''" "lower CHR ''b'' = CHR ''b''"
  by (simp_all add: lower_def code_def)

lemma list_all_iff_set: "list_all P xs \<longleftrightarrow> (\<forall>x \<in> set xs. P x)"
  by (simp add: list_all_iff)

section \<open>The leftmost match\<close>

declare re_search.simps [simp del]

lemma re_search_Nil: "re_search pat [] = match_at pat [] 0"
  by (simp add: re_search.simps [of pat "[]"] match_at_def split: list.splits)

lemma re_search_Cons:
  "re_search pat (c # cs) =
     (case match_at pat (c # cs) 0 of Some m \<Rightarrow> Some m | None \<Rightarrow> re_search pat cs)"
  by (simp add: re_search.simps [of pat "c # cs"] match_at_def split: list.splits)

lemma match_at_Suc: "match_at pat (c # cs) (Suc i) = match_at pat cs i"
  by (simp add: match_at_def split: list.splits)

lemma re_search_None_iff:
  "re_search pat s = None \<longleftrightarrow> (\<forall>i \<le> length s. match_at pat s i = None)"
proof (induction s)
  case Nil
  show ?case by (simp add: re_search_Nil)
next
  case (Cons c cs)
  have "(\<forall>i \<le> length (c # cs). match_at pat (c # cs) i = None) \<longleftrightarrow>
        match_at pat (c # cs) 0 = None \<and> (\<forall>i \<le> length cs. match_at pat cs i = None)"
  proof
    assume all: "\<forall>i \<le> length (c # cs). match_at pat (c # cs) i = None"
    then have "match_at pat (c # cs) 0 = None" by simp
    moreover have "\<forall>i \<le> length cs. match_at pat cs i = None"
    proof (intro allI impI)
      fix i assume "i \<le> length cs"
      with all have "match_at pat (c # cs) (Suc i) = None" by simp
      then show "match_at pat cs i = None" by (simp add: match_at_Suc)
    qed
    ultimately show "match_at pat (c # cs) 0 = None \<and> (\<forall>i \<le> length cs. match_at pat cs i = None)"
      by simp
  next
    assume h: "match_at pat (c # cs) 0 = None \<and> (\<forall>i \<le> length cs. match_at pat cs i = None)"
    show "\<forall>i \<le> length (c # cs). match_at pat (c # cs) i = None"
    proof (intro allI impI)
      fix i assume "i \<le> length (c # cs)"
      with h show "match_at pat (c # cs) i = None"
        by (cases i) (simp_all add: match_at_Suc)
    qed
  qed
  with Cons show ?case
    by (simp add: re_search_Cons split: option.splits)
qed

lemma re_search_Some_iff:
  "re_search pat s = Some m \<longleftrightarrow>
     (\<exists>i \<le> length s. match_at pat s i = Some m \<and> (\<forall>j < i. match_at pat s j = None))"
proof (induction s)
  case Nil
  show ?case by (simp add: re_search_Nil)
next
  case (Cons c cs)
  show ?case
  proof (cases "match_at pat (c # cs) 0")
    case (Some m0)
    have "(\<exists>i \<le> length (c # cs). match_at pat (c # cs) i = Some m
             \<and> (\<forall>j < i. match_at pat (c # cs) j = None)) \<longleftrightarrow> m0 = m"
    proof
      assume "\<exists>i \<le> length (c # cs). match_at pat (c # cs) i = Some m
             \<and> (\<forall>j < i. match_at pat (c # cs) j = None)"
      then obtain i where i: "match_at pat (c # cs) i = Some m"
        "\<forall>j < i. match_at pat (c # cs) j = None" by blast
      have "i = 0"
      proof (rule ccontr)
        assume "i \<noteq> 0"
        with i(2) have "match_at pat (c # cs) 0 = None" by simp
        with Some show False by simp
      qed
      with i(1) Some show "m0 = m" by simp
    next
      assume "m0 = m"
      with Some show "\<exists>i \<le> length (c # cs). match_at pat (c # cs) i = Some m
             \<and> (\<forall>j < i. match_at pat (c # cs) j = None)"
        by (intro exI [of _ 0]) simp
    qed
    with Some show ?thesis by (simp add: re_search_Cons)
  next
    case None
    have "(\<exists>i \<le> length (c # cs). match_at pat (c # cs) i = Some m
             \<and> (\<forall>j < i. match_at pat (c # cs) j = None)) \<longleftrightarrow>
          (\<exists>i \<le> length cs. match_at pat cs i = Some m \<and> (\<forall>j < i. match_at pat cs j = None))"
    proof
      assume "\<exists>i \<le> length (c # cs). match_at pat (c # cs) i = Some m
             \<and> (\<forall>j < i. match_at pat (c # cs) j = None)"
      then obtain i where i: "i \<le> length (c # cs)" "match_at pat (c # cs) i = Some m"
        "\<forall>j < i. match_at pat (c # cs) j = None" by blast
      from i(2) None obtain k where k: "i = Suc k" by (cases i) simp_all
      have "\<forall>j < k. match_at pat cs j = None"
      proof (intro allI impI)
        fix j assume "j < k"
        with i(3) k have "match_at pat (c # cs) (Suc j) = None" by simp
        then show "match_at pat cs j = None" by (simp add: match_at_Suc)
      qed
      with i k show "\<exists>i \<le> length cs. match_at pat cs i = Some m
          \<and> (\<forall>j < i. match_at pat cs j = None)"
        by (intro exI [of _ k]) (simp add: match_at_Suc)
    next
      assume "\<exists>i \<le> length cs. match_at pat cs i = Some m \<and> (\<forall>j < i. match_at pat cs j = None)"
      then obtain k where k: "k \<le> length cs" "match_at pat cs k = Some m"
        "\<forall>j < k. match_at pat cs j = None" by blast
      have "\<forall>j < Suc k. match_at pat (c # cs) j = None"
      proof (intro allI impI)
        fix j assume "j < Suc k"
        with k(3) None show "match_at pat (c # cs) j = None"
          by (cases j) (simp_all add: match_at_Suc)
      qed
      with k show "\<exists>i \<le> length (c # cs). match_at pat (c # cs) i = Some m
             \<and> (\<forall>j < i. match_at pat (c # cs) j = None)"
        by (intro exI [of _ "Suc k"]) (simp add: match_at_Suc)
    qed
    with None Cons show ?thesis by (simp add: re_search_Cons)
  qed
qed

lemma match_at_nonempty: "match_at pat s i = Some g \<Longrightarrow> g = hd g # tl g"
  by (auto simp: match_at_def split: list.splits)

lemma match_at_groups:
  "map_option tl (match_at pat s i) = first_groups (rmatch pat (drop i s))"
  by (simp add: match_at_def first_groups_def split: list.splits)

section \<open>The hex pattern\<close>

lemma takeWhile_length_ge:
  "n \<le> length (takeWhile P s) \<longleftrightarrow> n \<le> length s \<and> list_all P (take n s)"
proof (induction s arbitrary: n)
  case Nil
  show ?case by simp
next
  case (Cons c cs)
  show ?case
  proof (cases n)
    case 0
    then show ?thesis by simp
  next
    case (Suc k)
    with Cons [of k] show ?thesis by simp
  qed
qed

lemma rep_counts_exact:
  "rep_counts a n (Some n) s = (if n \<le> length s \<and> list_all (atom_match a) (take n s) then [n] else [])"
proof (cases "n \<le> length (takeWhile (atom_match a) s)")
  case True
  then have "min n (length (takeWhile (atom_match a) s)) = n" by simp
  with True show ?thesis
    by (simp add: rep_counts_def takeWhile_length_ge [symmetric])
next
  case False
  then have "min n (length (takeWhile (atom_match a) s)) = length (takeWhile (atom_match a) s)"
    by simp
  with False show ?thesis
    by (simp add: rep_counts_def takeWhile_length_ge [symmetric])
qed

lemma list_all_atom_hex:
  "list_all (atom_match (CharSet [(CHR ''0'', CHR ''9''), (CHR ''a'', CHR ''f''), (CHR ''A'', CHR ''F'')])) xs
     = list_all is_hex_digit xs"
  by (induction xs) (simp_all add: atom_match_hex del: atom_match.simps)

lemma rmatch_hex:
  "rmatch hex_colour_pattern t =
     (case t of
        [] \<Rightarrow> []
      | c # cs \<Rightarrow>
          if c = CHR ''#'' \<and> 6 \<le> length cs \<and> list_all is_hex_digit (take 6 cs)
          then [([], drop 6 cs)] else [])"
  by (cases t)
    (simp_all add: hex_colour_pattern_def lit_hash rep_counts_exact list_all_atom_hex
      del: atom_match.simps)

lemma match_at_hex:
  "match_at hex_colour_pattern s i = (if hex_at s i then Some [take 7 (drop i s)] else None)"
proof (cases "i < length s")
  case False
  then show ?thesis by (simp add: match_at_def rmatch_hex hex_at_def)
next
  case True
  then have d: "drop i s = s ! i # drop (Suc i) s"
    by (simp add: Cons_nth_drop_Suc)
  show ?thesis
  proof (cases "hex_at s i")
    case True
    then have len: "i + 7 \<le> length s"
      by (simp add: hex_at_def)
    then have "length s - i - (length s - Suc i - 6) = 7"
      by arith
    moreover from len have "6 \<le> length s - Suc i"
      by arith
    ultimately show ?thesis using True d
      by (simp add: match_at_def rmatch_hex hex_at_def)
  next
    case False
    with True d show ?thesis
      by (auto simp: match_at_def rmatch_hex hex_at_def)
  qed
qed

lemma hex_at_bound: "hex_at s i \<Longrightarrow> i \<le> length s"
  by (simp add: hex_at_def)

lemma extract_hex_colour_None_iff:
  "extract_hex_colour text = None \<longleftrightarrow> (\<forall>i. \<not> hex_at text i)"
proof -
  have "extract_hex_colour text = None \<longleftrightarrow> re_search hex_colour_pattern text = None"
    by (simp add: extract_hex_colour_def split: option.splits)
  also have "\<dots> \<longleftrightarrow> (\<forall>i \<le> length text. \<not> hex_at text i)"
    by (auto simp: re_search_None_iff match_at_hex)
  also have "\<dots> \<longleftrightarrow> (\<forall>i. \<not> hex_at text i)"
    using hex_at_bound by blast
  finally show ?thesis .
qed

lemma extract_hex_colour_Some_iff:
  "extract_hex_colour text = Some m \<longleftrightarrow>
     (\<exists>i. hex_at text i \<and> (\<forall>j < i. \<not> hex_at text j) \<and> m = take 7 (drop i text))"
proof -
  have "extract_hex_colour text = Some m \<longleftrightarrow>
      (\<exists>g. re_search hex_colour_pattern text = Some g \<and> m = group g 0)"
    by (auto simp: extract_hex_colour_def split: option.splits)
  also have "\<dots> \<longleftrightarrow>
      (\<exists>g. (\<exists>i \<le> length text. (hex_at text i \<and> g = [take 7 (drop i text)])
               \<and> (\<forall>j < i. \<not> hex_at text j)) \<and> m = group g 0)"
    by (simp add: re_search_Some_iff match_at_hex) (metis option.inject option.simps(3))
  also have "\<dots> \<longleftrightarrow>
      (\<exists>i. hex_at text i \<and> (\<forall>j < i. \<not> hex_at text j) \<and> m = take 7 (drop i text))"
  proof
    assume "\<exists>g. (\<exists>i \<le> length text. (hex_at text i \<and> g = [take 7 (drop i text)])
               \<and> (\<forall>j < i. \<not> hex_at text j)) \<and> m = group g 0"
    then show "\<exists>i. hex_at text i \<and> (\<forall>j < i. \<not> hex_at text j) \<and> m = take 7 (drop i text)"
      by (auto simp: group_def)
  next
    assume "\<exists>i. hex_at text i \<and> (\<forall>j < i. \<not> hex_at text j) \<and> m = take 7 (drop i text)"
    then obtain i where i: "hex_at text i" "\<forall>j < i. \<not> hex_at text j" "m = take 7 (drop i text)"
      by blast
    from i hex_at_bound [OF i(1)]
    show "\<exists>g. (\<exists>i \<le> length text. (hex_at text i \<and> g = [take 7 (drop i text)])
               \<and> (\<forall>j < i. \<not> hex_at text j)) \<and> m = group g 0"
      by (intro exI [of _ "[take 7 (drop i text)]"] conjI exI [of _ i]) (simp_all add: group_def)
  qed
  finally show ?thesis .
qed

lemma no_hash_no_hex:
  assumes "CHR ''#'' \<notin> set text"
  shows "\<not> hex_at text i"
proof
  assume "hex_at text i"
  then have "i < length text" "text ! i = CHR ''#''" by (simp_all add: hex_at_def)
  then have "CHR ''#'' \<in> set text" by (metis nth_mem)
  with assms show False by simp
qed

lemma hex_after_prefix:
  assumes "CHR ''#'' \<notin> set pre"
  shows "extract_hex_colour (pre @ ''#FFA500'' @ post) = Some ''#FFA500''"
proof -
  let ?t = "pre @ ''#FFA500'' @ post"
  have here: "hex_at ?t (length pre)"
    by (simp add: hex_at_def nth_append is_hex_digit_def)
  have before: "\<forall>j < length pre. \<not> hex_at ?t j"
  proof (intro allI impI)
    fix j assume j: "j < length pre"
    then have "?t ! j = pre ! j" by (simp add: nth_append)
    moreover from j have "pre ! j \<in> set pre" by simp
    ultimately have "?t ! j \<noteq> CHR ''#''" using assms by metis
    then show "\<not> hex_at ?t j" by (simp add: hex_at_def)
  qed
  have "take 7 (drop (length pre) ?t) = ''#FFA500''" by simp
  with here before show ?thesis
    unfolding extract_hex_colour_Some_iff by metis
qed

text \<open>
  Claim C5. For every text, \<^verbatim>\<open>extract_hex_colour\<close> returns none exactly when the text has
  no occurrence of \<^verbatim>\<open>#\<close> followed by six hexadecimal digits (in either case), and
  otherwise it returns the seven characters of the first occurrence. In particular it
  returns none for a text without \<^verbatim>\<open>#\<close>; it returns \<^verbatim>\<open>#FFA500\<close> for a text that contains
  \<^verbatim>\<open>#FFA500\<close> with no \<^verbatim>\<open>#\<close> before it, such as the test text of the notebook; and it
  returns none for the notebook's text \<^verbatim>\<open>No hex colour\<close>.
\<close>

theorem extract_hex_colour_first_occurrence:
  "(extract_hex_colour text = None \<longleftrightarrow> (\<forall>i. \<not> hex_at text i))
   \<and> (\<forall>m. extract_hex_colour text = Some m \<longleftrightarrow>
         (\<exists>i. hex_at text i \<and> (\<forall>j < i. \<not> hex_at text j) \<and> m = take 7 (drop i text)))
   \<and> (CHR ''#'' \<notin> set text \<longrightarrow> extract_hex_colour text = None)
   \<and> (CHR ''#'' \<notin> set pre \<longrightarrow>
         extract_hex_colour (pre @ ''#FFA500'' @ post) = Some ''#FFA500'')
   \<and> extract_hex_colour ''This text contains a color code: #FFA500 and more text after''
       = Some ''#FFA500''
   \<and> extract_hex_colour ''No hex colour'' = None"
proof (intro conjI allI impI)
  show "extract_hex_colour (pre @ ''#FFA500'' @ post) = Some ''#FFA500''"
    if "CHR ''#'' \<notin> set pre"
    using that by (rule hex_after_prefix)
  show "extract_hex_colour text = None \<longleftrightarrow> (\<forall>i. \<not> hex_at text i)"
    by (rule extract_hex_colour_None_iff)
  show "extract_hex_colour text = Some m \<longleftrightarrow>
         (\<exists>i. hex_at text i \<and> (\<forall>j < i. \<not> hex_at text j) \<and> m = take 7 (drop i text))" for m
    by (rule extract_hex_colour_Some_iff)
  show "extract_hex_colour text = None" if "CHR ''#'' \<notin> set text"
    using that by (simp add: extract_hex_colour_None_iff no_hash_no_hex)
  show "extract_hex_colour ''This text contains a color code: #FFA500 and more text after''
       = Some ''#FFA500''"
    by code_simp
  show "extract_hex_colour ''No hex colour'' = None"
    by code_simp
qed

lemma all_less_upt: "(\<forall>j < n. P j) \<longleftrightarrow> list_all P [0 ..< n]"
  by (auto simp: list_all_iff)

theorem extract_hex_colour_first_occurrence_witness:
  "hex_at ''ab #12 #FFa500 #000000'' 7
   \<and> extract_hex_colour ''ab #12 #FFa500 #000000'' = Some ''#FFa500''"
proof -
  have here: "hex_at ''ab #12 #FFa500 #000000'' 7"
    by code_simp
  have "list_all (\<lambda>j. \<not> hex_at ''ab #12 #FFa500 #000000'' j) [0 ..< 7]"
    by code_simp
  then have before: "\<forall>j < 7. \<not> hex_at ''ab #12 #FFa500 #000000'' j"
    by (simp only: all_less_upt)
  have "take 7 (drop 7 ''ab #12 #FFa500 #000000'') = ''#FFa500''"
    by simp
  with here before
  have "\<exists>i. hex_at ''ab #12 #FFa500 #000000'' i
          \<and> (\<forall>j < i. \<not> hex_at ''ab #12 #FFa500 #000000'' j)
          \<and> ''#FFa500'' = take 7 (drop i ''ab #12 #FFa500 #000000'')"
    by (intro exI [of _ 7]) simp
  with extract_hex_colour_first_occurrence [of "''ab #12 #FFa500 #000000''"] here
  show ?thesis by blast
qed

section \<open>The rgb pattern\<close>

lemma concat_map_all_Nil: "(\<And>k. k \<in> set ks \<Longrightarrow> f k = []) \<Longrightarrow> concat (map f ks) = []"
  by (induction ks) simp_all

lemma dropWhile_eq_drop_length: "dropWhile P s = drop (length (takeWhile P s)) s"
  by (induction s) simp_all

lemma nth_takeWhile_length:
  "k < length (takeWhile P s) \<Longrightarrow> P (s ! k)"
proof (induction s arbitrary: k)
  case Nil
  then show ?case by simp
next
  case (Cons c cs)
  then show ?case by (cases k) (auto split: if_splits)
qed

lemma rmatch_spaces:
  assumes "\<And>c cs. is_space c \<Longrightarrow> rmatch rs (c # cs) = []"
  shows "rmatch (Rep Space 0 None # rs) s = rmatch rs (dropWhile is_space s)"
proof -
  let ?n = "length (takeWhile is_space s)"
  have counts: "rep_counts Space 0 None s = ?n # rev [0 ..< ?n]"
    by (simp add: rep_counts_def Let_def atom_match_Space)
  have "concat (map (\<lambda>k. rmatch rs (drop k s)) (rev [0 ..< ?n])) = []"
  proof (rule concat_map_all_Nil)
    fix k assume "k \<in> set (rev [0 ..< ?n])"
    then have k: "k < ?n" by simp
    then have "k < length s" using length_takeWhile_le [of is_space s] by simp
    then have "drop k s = s ! k # drop (Suc k) s" by (simp add: Cons_nth_drop_Suc)
    moreover have "is_space (s ! k)" using k by (rule nth_takeWhile_length)
    ultimately show "rmatch rs (drop k s) = []" by (simp add: assms)
  qed
  with counts show ?thesis
    by (simp add: dropWhile_eq_drop_length)
qed

lemma concat_map_single: "concat (map (\<lambda>k. [g k]) ks) = map g ks"
  by (induction ks) simp_all

lemma rmatch_single_rep:
  "rmatch [Rep a lo hi] s = map (\<lambda>k. ([], drop k s)) (rep_counts a lo hi s)"
  by (simp add: concat_map_single)

lemma digit_counts:
  "rev [1 ..< Suc (min 3 n)] =
     (if n = 0 then [] else if n = 1 then [1] else if n = 2 then [2, 1] else [3, 2, 1::nat])"
proof -
  have r1: "rev [1 ..< Suc 1] = [1::nat]" by (simp add: upt_rec)
  have r2: "rev [1 ..< Suc 2] = [2, 1::nat]" by (simp add: upt_rec)
  have r3: "rev [1 ..< Suc 3] = [3, 2, 1::nat]" by (simp add: upt_rec)
  consider "n = 0" | "n = 1" | "n = 2" | "3 \<le> n" by arith
  then show ?thesis
  proof cases
    case 1
    then show ?thesis by simp
  next
    case 2
    then have "min 3 n = 1" by simp
    with 2 r1 show ?thesis by (simp del: upt_Suc)
  next
    case 3
    then have "min 3 n = 2" by simp
    with 3 r2 show ?thesis by (simp del: upt_Suc)
  next
    case 4
    then have "min 3 n = 3" "n \<noteq> 0" "n \<noteq> 1" "n \<noteq> 2" by simp_all
    with r3 show ?thesis by (simp del: upt_Suc)
  qed
qed

lemma rep_counts_digits:
  "rep_counts Digit 1 (Some 3) s =
     (let n = length (takeWhile is_digit s)
      in if n = 0 then [] else if n = 1 then [1] else if n = 2 then [2, 1] else [3, 2, 1])"
  unfolding rep_counts_def Let_def atom_match_Digit option.case digit_counts ..

lemma comma_inside_digits:
  assumes "k < length (takeWhile is_digit s)"
  shows "rmatch (Atom (Lit CHR '','') # rs) (drop k s) = []"
proof -
  from assms have "k < length s" using length_takeWhile_le [of is_digit s] by simp
  then have "drop k s = s ! k # drop (Suc k) s" by (simp add: Cons_nth_drop_Suc)
  moreover have "is_digit (s ! k)" using assms by (rule nth_takeWhile_length)
  then have "s ! k \<noteq> CHR '',''" using comma_not_digit by auto
  ultimately show ?thesis by (simp add: lit_comma del: atom_match.simps)
qed

lemma rmatch_comma:
  "rmatch (Atom (Lit CHR '','') # rs) t =
     (if take 1 t = '','' then rmatch rs (drop 1 t) else [])"
  by (cases t) (simp_all add: lit_comma del: atom_match.simps)

lemma rmatch_group_comma:
  "rmatch (Group [Rep Digit 1 (Some 3)] # Atom (Lit CHR '','') # rs) s =
     (case digits_then_comma s of
        None \<Rightarrow> []
      | Some (d, t) \<Rightarrow> map (\<lambda>m2. (d # fst m2, snd m2)) (rmatch rs t))"
proof -
  define n where "n = length (takeWhile is_digit s)"
  define f where "f = (\<lambda>k. map (\<lambda>m2. (take (length s - length (drop k s)) s # fst m2, snd m2))
                   (rmatch (Atom (Lit CHR '','') # rs) (drop k s)))"
  have unfold: "rmatch (Group [Rep Digit 1 (Some 3)] # Atom (Lit CHR '','') # rs) s =
      concat (map f (rep_counts Digit 1 (Some 3) s))"
    unfolding f_def
    by (simp only: rmatch.simps(4) rmatch_single_rep map_map comp_def fst_conv snd_conv append_Nil)
  have counts: "rep_counts Digit 1 (Some 3) s =
      (if n = 0 then [] else if n = 1 then [1] else if n = 2 then [2, 1] else [3, 2, 1])"
    unfolding rep_counts_digits Let_def n_def ..
  have inside: "\<And>k. k < n \<Longrightarrow> f k = []"
    unfolding f_def n_def by (simp add: comma_inside_digits del: rmatch.simps)
  have n_le: "n \<le> length s" unfolding n_def by (rule length_takeWhile_le)
  have tw: "takeWhile is_digit s = take n s"
    unfolding n_def by (rule takeWhile_eq_take)
  have dw: "dropWhile is_digit s = drop n s"
    unfolding n_def by (rule dropWhile_eq_drop_length)
  have at_end: "f n =
      (if take 1 (drop n s) = '',''
       then map (\<lambda>m2. (take n s # fst m2, snd m2)) (rmatch rs (drop (Suc n) s))
       else [])"
    unfolding f_def using n_le by (simp add: rmatch_comma del: rmatch.simps)
  have dtc: "digits_then_comma s =
      (if 1 \<le> n \<and> n \<le> 3 \<and> take 1 (drop n s) = '',''
       then Some (take n s, drop (Suc n) s) else None)"
    unfolding digits_then_comma_def Let_def tw dw using n_le by simp
  consider "n = 0" | "n = 1" | "n = 2" | "n = 3" | "3 < n" by arith
  then show ?thesis
  proof cases
    case 1
    then show ?thesis unfolding unfold counts dtc by simp
  next
    case 2
    with at_end show ?thesis unfolding unfold counts dtc by simp
  next
    case 3
    with at_end inside [of 1] show ?thesis unfolding unfold counts dtc by simp
  next
    case 4
    with at_end inside [of 1] inside [of 2] show ?thesis unfolding unfold counts dtc by simp
  next
    case 5
    with inside [of 1] inside [of 2] inside [of 3] show ?thesis
      unfolding unfold counts dtc by simp
  qed
qed

lemma rmatch_group_digits:
  "rmatch (Group [Rep Digit 1 (Some 3)] # rs) s =
     concat (map (\<lambda>k. map (\<lambda>m2. (take (length s - length (drop k s)) s # fst m2, snd m2))
                          (rmatch rs (drop k s)))
                 (rep_counts Digit 1 (Some 3) s))"
  by (simp only: rmatch.simps(4) rmatch_single_rep map_map comp_def fst_conv snd_conv append_Nil)

lemma rmatch_group_after_space:
  assumes "is_space c"
  shows "rmatch (Group [Rep Digit 1 (Some 3)] # rs) (c # cs) = []"
proof -
  from assms have "\<not> is_digit c" using digit_not_space by blast
  then have "rep_counts Digit 1 (Some 3) (c # cs) = []"
    unfolding rep_counts_digits by simp
  then show ?thesis by (simp only: rmatch_group_digits) simp
qed

lemma rmatch_last_group:
  "rmatch [Group [Rep Digit 1 (Some 3)]] s =
     (case last_digits s of
        None \<Rightarrow> []
      | Some d \<Rightarrow>
          ([d], drop (length d) s)
          # map (\<lambda>k. ([take k s], drop k s)) (tl (rep_counts Digit 1 (Some 3) s)))"
proof -
  define n where "n = length (takeWhile is_digit s)"
  have counts: "rep_counts Digit 1 (Some 3) s =
      (if n = 0 then [] else if n = 1 then [1] else if n = 2 then [2, 1] else [3, 2, 1])"
    unfolding rep_counts_digits Let_def n_def ..
  have n_le: "n \<le> length s" unfolding n_def by (rule length_takeWhile_le)
  have ld: "last_digits s = (if n = 0 then None else Some (take (min 3 n) s))"
    unfolding last_digits_def Let_def n_def ..
  consider "n = 0" | "n = 1" | "n = 2" | "3 \<le> n" by arith
  then show ?thesis
  proof cases
    case 1
    then show ?thesis unfolding rmatch_group_digits counts ld by simp
  next
    case 2
    with n_le show ?thesis unfolding rmatch_group_digits counts ld by simp
  next
    case 3
    with n_le show ?thesis unfolding rmatch_group_digits counts ld by simp
  next
    case 4
    then have "min 3 n = 3" "n \<noteq> 0" "n \<noteq> 1" "n \<noteq> 2" by simp_all
    with n_le 4 show ?thesis unfolding rmatch_group_digits counts ld by simp
  qed
qed

lemma rmatch_tail:
  "rmatch (Rep Space 0 None # Group [Rep Digit 1 (Some 3)] # rs) s =
     rmatch (Group [Rep Digit 1 (Some 3)] # rs) (dropWhile is_space s)"
  by (rule rmatch_spaces) (rule rmatch_group_after_space)

lemma rmatch_rgb:
  "rmatch rgb_colour_pattern t =
     (case t of
        c1 # c2 # c3 # s0 \<Rightarrow>
          if lower c1 = CHR ''r'' \<and> lower c2 = CHR ''g'' \<and> lower c3 = CHR ''b'' then
            (case digits_then_comma (dropWhile is_space s0) of
               None \<Rightarrow> []
             | Some (d1, s1) \<Rightarrow>
                 (case digits_then_comma (dropWhile is_space s1) of
                    None \<Rightarrow> []
                  | Some (d2, s2) \<Rightarrow>
                      map (\<lambda>m. (d1 # d2 # fst m, snd m))
                        (rmatch [Group [Rep Digit 1 (Some 3)]] (dropWhile is_space s2))))
          else []
      | _ \<Rightarrow> [])"
proof -
  have three: "rmatch (Atom (Lit CHR ''r'') # Atom (Lit CHR ''g'') # Atom (Lit CHR ''b'') # rs) t =
      (case t of
        c1 # c2 # c3 # s0 \<Rightarrow>
          if lower c1 = CHR ''r'' \<and> lower c2 = CHR ''g'' \<and> lower c3 = CHR ''b''
          then rmatch rs s0 else []
      | _ \<Rightarrow> [])" for rs
    by (simp add: lower_rgb split: list.splits)
  show ?thesis
    unfolding rgb_colour_pattern_def three rmatch_tail rmatch_group_comma
    by (simp add: comp_def split: list.splits option.splits del: rmatch.simps)
qed

lemma spaces_then_digits:
  assumes "list_all is_space w" "digit_group d"
  shows "dropWhile is_space (w @ d @ X) = d @ X"
proof -
  from assms(2) obtain c cs where d: "d = c # cs" and c: "is_digit c"
    by (cases d) (auto simp: digit_group_def)
  from c have "\<not> is_space c" by (rule digit_not_space)
  with assms(1) d show ?thesis
    by (simp add: dropWhile_append list_all_iff_set)
qed

lemma digits_then_comma_append:
  assumes "digit_group d"
  shows "digits_then_comma (d @ '','' @ X) = Some (d, X)"
proof -
  from assms have all: "\<forall>x \<in> set d. is_digit x" by (simp add: digit_group_def list_all_iff_set)
  have tw: "takeWhile is_digit (d @ '','' @ X) = d"
    using all comma_not_digit by (simp add: takeWhile_append2)
  have dw: "dropWhile is_digit (d @ '','' @ X) = '','' @ X"
    using all comma_not_digit by (simp add: dropWhile_append)
  from assms show ?thesis
    unfolding digits_then_comma_def Let_def tw dw by (simp add: digit_group_def)
qed

lemma last_digits_append:
  assumes "digit_group d" "length d = 3 \<or> rest = [] \<or> \<not> is_digit (hd rest)"
  shows "last_digits (d @ rest) = Some d"
proof -
  define n where "n = length (takeWhile is_digit (d @ rest))"
  from assms(1) have all: "\<forall>x \<in> set d. is_digit x" by (simp add: digit_group_def list_all_iff_set)
  from assms(1) have len: "1 \<le> length d" "length d \<le> 3" by (simp_all add: digit_group_def)
  have tw: "takeWhile is_digit (d @ rest) = d @ takeWhile is_digit rest"
    using all by (simp add: takeWhile_append2)
  then have n_ge: "length d \<le> n" by (simp add: n_def)
  have "min 3 n = length d"
  proof (cases "length d = 3")
    case True
    with n_ge show ?thesis by simp
  next
    case False
    with assms(2) have "takeWhile is_digit rest = []" by (cases rest) auto
    with tw have "n = length d" by (simp add: n_def)
    with len show ?thesis by simp
  qed
  moreover from n_ge len have "n \<noteq> 0" by simp
  ultimately show ?thesis
    unfolding last_digits_def Let_def n_def [symmetric] by simp
qed

lemma digits_then_comma_Some:
  assumes "digits_then_comma s = Some (d, X)"
  shows "digit_group d \<and> s = d @ '','' @ X"
proof -
  define n where "n = length (takeWhile is_digit s)"
  have tw: "takeWhile is_digit s = take n s" unfolding n_def by (rule takeWhile_eq_take)
  have dw: "dropWhile is_digit s = drop n s" unfolding n_def by (rule dropWhile_eq_drop_length)
  from assms have d: "d = takeWhile is_digit s" and X: "X = drop (Suc n) s"
    and len: "1 \<le> length d" "length d \<le> 3" and comma: "take 1 (drop n s) = '',''"
    unfolding digits_then_comma_def Let_def n_def [symmetric] dw
    by (auto split: if_splits simp: n_def)
  have "list_all is_digit d" unfolding d list_all_iff_set by (auto dest: set_takeWhileD)
  with len have "digit_group d" by (simp add: digit_group_def)
  moreover have "s = d @ '','' @ X"
  proof -
    have "s = take n s @ drop n s" by simp
    also have "drop n s = take 1 (drop n s) @ drop 1 (drop n s)" by (simp only: append_take_drop_id)
    also have "drop 1 (drop n s) = X" unfolding X by simp
    finally show ?thesis unfolding comma d tw .
  qed
  ultimately show ?thesis ..
qed

lemma last_digits_Some:
  assumes "last_digits s = Some d"
  shows "\<exists>rest. s = d @ rest \<and> digit_group d \<and> (length d = 3 \<or> rest = [] \<or> \<not> is_digit (hd rest))"
proof -
  define n where "n = length (takeWhile is_digit s)"
  have n_le: "n \<le> length s" unfolding n_def by (rule length_takeWhile_le)
  have tw: "takeWhile is_digit s = take n s" unfolding n_def by (rule takeWhile_eq_take)
  have dw: "dropWhile is_digit s = drop n s" unfolding n_def by (rule dropWhile_eq_drop_length)
  from assms have n0: "n \<noteq> 0" and d: "d = take (min 3 n) s"
    unfolding last_digits_def Let_def n_def [symmetric] by (auto split: if_splits)
  have len: "length d = min 3 n" unfolding d using n_le by simp
  have "set d \<subseteq> set (takeWhile is_digit s)"
    unfolding d tw by (metis min.cobounded2 set_take_subset_set_take)
  then have "list_all is_digit d" unfolding list_all_iff_set by (auto dest: set_takeWhileD)
  with len n0 have dg: "digit_group d" by (simp add: digit_group_def)
  have tail: "length d = 3 \<or> drop (min 3 n) s = [] \<or> \<not> is_digit (hd (drop (min 3 n) s))"
  proof (cases "3 \<le> n")
    case True
    with len show ?thesis by simp
  next
    case False
    then have m: "min 3 n = n" by simp
    show ?thesis unfolding m dw [symmetric]
      by (cases "dropWhile is_digit s = []") (simp_all add: hd_dropWhile)
  qed
  have "s = d @ drop (min 3 n) s" unfolding d by simp
  with dg tail show ?thesis by blast
qed

lemma spaces_split: "\<exists>w. s = w @ dropWhile is_space s \<and> list_all is_space w"
proof (intro exI conjI)
  show "s = takeWhile is_space s @ dropWhile is_space s" by simp
  show "list_all is_space (takeWhile is_space s)"
    unfolding list_all_iff_set by (auto dest: set_takeWhileD)
qed

lemma rgb_scan_SomeD:
  assumes "rgb_scan t = Some (d1, d2, d3)"
  shows "\<exists>c1 c2 c3 s0 s1 s2.
      t = c1 # c2 # c3 # s0
      \<and> lower c1 = CHR ''r'' \<and> lower c2 = CHR ''g'' \<and> lower c3 = CHR ''b''
      \<and> digits_then_comma (dropWhile is_space s0) = Some (d1, s1)
      \<and> digits_then_comma (dropWhile is_space s1) = Some (d2, s2)
      \<and> last_digits (dropWhile is_space s2) = Some d3"
proof (cases t)
  case Nil
  with assms show ?thesis by (simp add: rgb_scan_def)
next
  case (Cons c1 t1)
  note t = this
  show ?thesis
  proof (cases t1)
    case Nil
    with assms t show ?thesis by (simp add: rgb_scan_def)
  next
    case (Cons c2 t2)
    note t1 = this
    show ?thesis
    proof (cases t2)
      case Nil
      with assms t t1 show ?thesis by (simp add: rgb_scan_def)
    next
      case (Cons c3 s0)
      note t2 = this
      show ?thesis
      proof (cases "lower c1 = CHR ''r'' \<and> lower c2 = CHR ''g'' \<and> lower c3 = CHR ''b''")
        case False
        with assms t t1 t2 show ?thesis by (auto simp: rgb_scan_def)
      next
        case True
        note low = this
        show ?thesis
        proof (cases "digits_then_comma (dropWhile is_space s0)")
          case None
          with assms t t1 t2 low show ?thesis by (simp add: rgb_scan_def)
        next
          case (Some p1)
          obtain e1 s1 where p1: "p1 = (e1, s1)" by (cases p1) auto
          note g1 = Some [unfolded p1]
          show ?thesis
          proof (cases "digits_then_comma (dropWhile is_space s1)")
            case None
            with assms t t1 t2 low g1 show ?thesis by (simp add: rgb_scan_def)
          next
            case (Some p2)
            obtain e2 s2 where p2: "p2 = (e2, s2)" by (cases p2) auto
            note g2 = Some [unfolded p2]
            show ?thesis
            proof (cases "last_digits (dropWhile is_space s2)")
              case None
              with assms t t1 t2 low g1 g2 show ?thesis by (simp add: rgb_scan_def)
            next
              case (Some e3)
              with assms t t1 t2 low g1 g2 have "e1 = d1" "e2 = d2" "e3 = d3"
                by (simp_all add: rgb_scan_def)
              with t t1 t2 low g1 g2 Some show ?thesis by simp
            qed
          qed
        qed
      qed
    qed
  qed
qed

lemma rgb_scan_decompose:
  assumes "rgb_scan t = Some (d1, d2, d3)"
  shows "\<exists>l w1 w2 w3 rest.
        t = l @ w1 @ d1 @ '','' @ w2 @ d2 @ '','' @ w3 @ d3 @ rest
        \<and> map lower l = ''rgb''
        \<and> list_all is_space w1 \<and> list_all is_space w2 \<and> list_all is_space w3
        \<and> digit_group d1 \<and> digit_group d2 \<and> digit_group d3
        \<and> (length d3 = 3 \<or> rest = [] \<or> \<not> is_digit (hd rest))"
proof -
  from assms obtain c1 c2 c3 s0 s1 s2 where
    t: "t = c1 # c2 # c3 # s0"
    and low: "lower c1 = CHR ''r''" "lower c2 = CHR ''g''" "lower c3 = CHR ''b''"
    and g1: "digits_then_comma (dropWhile is_space s0) = Some (d1, s1)"
    and g2: "digits_then_comma (dropWhile is_space s1) = Some (d2, s2)"
    and g3: "last_digits (dropWhile is_space s2) = Some d3"
    using rgb_scan_SomeD [OF assms] by blast
  from spaces_split [of s0] obtain w1 where w1: "s0 = w1 @ dropWhile is_space s0" "list_all is_space w1"
    by blast
  from spaces_split [of s1] obtain w2 where w2: "s1 = w2 @ dropWhile is_space s1" "list_all is_space w2"
    by blast
  from spaces_split [of s2] obtain w3 where w3: "s2 = w3 @ dropWhile is_space s2" "list_all is_space w3"
    by blast
  from digits_then_comma_Some [OF g1] have e1: "digit_group d1" "dropWhile is_space s0 = d1 @ '','' @ s1"
    by simp_all
  from digits_then_comma_Some [OF g2] have e2: "digit_group d2" "dropWhile is_space s1 = d2 @ '','' @ s2"
    by simp_all
  from last_digits_Some [OF g3] obtain rest where
    e3: "dropWhile is_space s2 = d3 @ rest" "digit_group d3"
      "length d3 = 3 \<or> rest = [] \<or> \<not> is_digit (hd rest)"
    by blast
  have "s2 = w3 @ d3 @ rest" using w3(1) e3(1) by simp
  moreover have "s1 = w2 @ d2 @ '','' @ s2" using w2(1) e2(2) by simp
  moreover have "s0 = w1 @ d1 @ '','' @ s1" using w1(1) e1(2) by simp
  ultimately have "t = [c1, c2, c3] @ w1 @ d1 @ '','' @ w2 @ d2 @ '','' @ w3 @ d3 @ rest"
    using t by simp
  moreover have "map lower [c1, c2, c3] = ''rgb''" using low by simp
  ultimately show ?thesis
    using w1(2) w2(2) w3(2) e1(1) e2(1) e3(2) e3(3)
    by (intro exI [of _ "[c1, c2, c3]"] exI [of _ w1] exI [of _ w2] exI [of _ w3]
          exI [of _ rest] conjI)
qed

lemma rgb_scan_compose:
  assumes "t = l @ w1 @ d1 @ '','' @ w2 @ d2 @ '','' @ w3 @ d3 @ rest"
    and "map lower l = ''rgb''"
    and "list_all is_space w1" "list_all is_space w2" "list_all is_space w3"
    and "digit_group d1" "digit_group d2" "digit_group d3"
    and "length d3 = 3 \<or> rest = [] \<or> \<not> is_digit (hd rest)"
  shows "rgb_scan t = Some (d1, d2, d3)"
proof -
  from assms(2) have "length l = 3"
    by (metis length_map length_Cons list.size(3) numeral_3_eq_3)
  then obtain c1 c2 c3 where l: "l = [c1, c2, c3]"
    by (metis (no_types) length_0_conv length_Suc_conv numeral_3_eq_3)
  with assms(2) have low: "lower c1 = CHR ''r''" "lower c2 = CHR ''g''" "lower c3 = CHR ''b''"
    by simp_all
  define X2 where "X2 = w3 @ d3 @ rest"
  define X1 where "X1 = w2 @ d2 @ '','' @ X2"
  define X0 where "X0 = w1 @ d1 @ '','' @ X1"
  have t: "t = c1 # c2 # c3 # X0"
    using assms(1) l by (simp add: X0_def X1_def X2_def)
  have "dropWhile is_space X0 = d1 @ '','' @ X1"
    unfolding X0_def by (rule spaces_then_digits [OF assms(3) assms(6)])
  then have g1: "digits_then_comma (dropWhile is_space X0) = Some (d1, X1)"
    by (simp only: digits_then_comma_append [OF assms(6)])
  have "dropWhile is_space X1 = d2 @ '','' @ X2"
    unfolding X1_def by (rule spaces_then_digits [OF assms(4) assms(7)])
  then have g2: "digits_then_comma (dropWhile is_space X1) = Some (d2, X2)"
    by (simp only: digits_then_comma_append [OF assms(7)])
  have "dropWhile is_space X2 = d3 @ rest"
    unfolding X2_def by (rule spaces_then_digits [OF assms(5) assms(8)])
  then have g3: "last_digits (dropWhile is_space X2) = Some d3"
    by (simp only: last_digits_append [OF assms(8) assms(9)])
  show ?thesis
    unfolding rgb_scan_def t using low g1 g2 g3 by simp
qed

lemma rgb_atI:
  assumes "i \<le> length text"
    and "drop i text = l @ w1 @ d1 @ '','' @ w2 @ d2 @ '','' @ w3 @ d3 @ rest"
    and "map lower l = ''rgb''"
    and "list_all is_space w1" "list_all is_space w2" "list_all is_space w3"
    and "digit_group d1" "digit_group d2" "digit_group d3"
    and "length d3 = 3 \<or> rest = [] \<or> \<not> is_digit (hd rest)"
  shows "rgb_at text i d1 d2 d3"
  unfolding rgb_at_def
  apply (rule exI [of _ l])
  apply (rule exI [of _ w1])
  apply (rule exI [of _ w2])
  apply (rule exI [of _ w3])
  apply (rule exI [of _ rest])
  apply (intro conjI)
  apply (rule assms)+
  done

lemma rgb_atE:
  assumes "rgb_at text i d1 d2 d3"
  obtains l w1 w2 w3 rest where
    "i \<le> length text"
    "drop i text = l @ w1 @ d1 @ '','' @ w2 @ d2 @ '','' @ w3 @ d3 @ rest"
    "map lower l = ''rgb''"
    "list_all is_space w1" "list_all is_space w2" "list_all is_space w3"
    "digit_group d1" "digit_group d2" "digit_group d3"
    "length d3 = 3 \<or> rest = [] \<or> \<not> is_digit (hd rest)"
  using assms unfolding rgb_at_def by (elim exE conjE) (rule that)

lemma rgb_at_iff_scan:
  "rgb_at text i d1 d2 d3 \<longleftrightarrow> i \<le> length text \<and> rgb_scan (drop i text) = Some (d1, d2, d3)"
proof
  assume "rgb_at text i d1 d2 d3"
  then obtain l w1 w2 w3 rest where f:
    "i \<le> length text"
    "drop i text = l @ w1 @ d1 @ '','' @ w2 @ d2 @ '','' @ w3 @ d3 @ rest"
    "map lower l = ''rgb''"
    "list_all is_space w1" "list_all is_space w2" "list_all is_space w3"
    "digit_group d1" "digit_group d2" "digit_group d3"
    "length d3 = 3 \<or> rest = [] \<or> \<not> is_digit (hd rest)"
    by (rule rgb_atE)
  from f(2-10) have "rgb_scan (drop i text) = Some (d1, d2, d3)"
    by (rule rgb_scan_compose)
  with f(1) show "i \<le> length text \<and> rgb_scan (drop i text) = Some (d1, d2, d3)" ..
next
  assume a: "i \<le> length text \<and> rgb_scan (drop i text) = Some (d1, d2, d3)"
  then have scan: "rgb_scan (drop i text) = Some (d1, d2, d3)" ..
  from a have le: "i \<le> length text" ..
  from rgb_scan_decompose [OF scan] obtain l w1 w2 w3 rest where f:
    "drop i text = l @ w1 @ d1 @ '','' @ w2 @ d2 @ '','' @ w3 @ d3 @ rest"
    "map lower l = ''rgb''"
    "list_all is_space w1" "list_all is_space w2" "list_all is_space w3"
    "digit_group d1" "digit_group d2" "digit_group d3"
    "length d3 = 3 \<or> rest = [] \<or> \<not> is_digit (hd rest)"
    by (elim exE conjE)
  from le f show "rgb_at text i d1 d2 d3" by (rule rgb_atI)
qed

lemma rgb_at_code [code]:
  "rgb_at text i d1 d2 d3 \<longleftrightarrow> i \<le> length text \<and> rgb_scan (drop i text) = Some (d1, d2, d3)"
  by (rule rgb_at_iff_scan)

lemma first_groups_last:
  "first_groups (map (\<lambda>m. (d1 # d2 # fst m, snd m)) (rmatch [Group [Rep Digit 1 (Some 3)]] s)) =
     (case last_digits s of None \<Rightarrow> None | Some d3 \<Rightarrow> Some [d1, d2, d3])"
  unfolding rmatch_last_group first_groups_def by (simp split: option.splits)

lemma first_groups_Nil: "first_groups [] = None"
  by (simp add: first_groups_def)

lemma first_groups_rgb:
  "first_groups (rmatch rgb_colour_pattern t) =
     (case rgb_scan t of None \<Rightarrow> None | Some (d1, d2, d3) \<Rightarrow> Some [d1, d2, d3])"
proof (cases t)
  case Nil
  then show ?thesis unfolding rmatch_rgb rgb_scan_def by (simp add: first_groups_Nil)
next
  case (Cons c1 t1)
  note t = this
  show ?thesis
  proof (cases t1)
    case Nil
    with t show ?thesis unfolding rmatch_rgb rgb_scan_def by (simp add: first_groups_Nil)
  next
    case (Cons c2 t2)
    note t1 = this
    show ?thesis
    proof (cases t2)
      case Nil
      with t t1 show ?thesis unfolding rmatch_rgb rgb_scan_def by (simp add: first_groups_Nil)
    next
      case (Cons c3 s0)
      note t2 = this
      show ?thesis
      proof (cases "lower c1 = CHR ''r'' \<and> lower c2 = CHR ''g'' \<and> lower c3 = CHR ''b''")
        case False
        with t t1 t2 show ?thesis
          unfolding rmatch_rgb rgb_scan_def by (auto simp: first_groups_Nil)
      next
        case True
        note low = this
        show ?thesis
        proof (cases "digits_then_comma (dropWhile is_space s0)")
          case None
          with t t1 t2 low show ?thesis
            unfolding rmatch_rgb rgb_scan_def by (simp add: first_groups_Nil)
        next
          case (Some p1)
          obtain d1 s1 where p1: "p1 = (d1, s1)" by (cases p1) auto
          note g1 = Some [unfolded p1]
          show ?thesis
          proof (cases "digits_then_comma (dropWhile is_space s1)")
            case None
            with t t1 t2 low g1 show ?thesis
              unfolding rmatch_rgb rgb_scan_def by (simp add: first_groups_Nil)
          next
            case (Some p2)
            obtain d2 s2 where p2: "p2 = (d2, s2)" by (cases p2) auto
            note g2 = Some [unfolded p2]
            from t t1 t2 low g1 g2 show ?thesis
              unfolding rmatch_rgb rgb_scan_def first_groups_last
              by (simp add: first_groups_last [unfolded One_nat_def] del: rmatch.simps
                    split: option.splits)
          qed
        qed
      qed
    qed
  qed
qed

lemma match_at_rgb:
  "map_option tl (match_at rgb_colour_pattern s i) =
     (case rgb_scan (drop i s) of None \<Rightarrow> None | Some (d1, d2, d3) \<Rightarrow> Some [d1, d2, d3])"
  by (simp only: match_at_groups first_groups_rgb)

lemma match_at_rgb_None:
  assumes "i \<le> length s"
  shows "match_at rgb_colour_pattern s i = None \<longleftrightarrow> (\<forall>d1 d2 d3. \<not> rgb_at s i d1 d2 d3)"
proof -
  have "match_at rgb_colour_pattern s i = None \<longleftrightarrow> rgb_scan (drop i s) = None"
    using match_at_rgb [of s i]
    by (cases "match_at rgb_colour_pattern s i"; cases "rgb_scan (drop i s)") auto
  also have "\<dots> \<longleftrightarrow> (\<forall>d1 d2 d3. \<not> rgb_at s i d1 d2 d3)"
    using assms by (cases "rgb_scan (drop i s)") (auto simp: rgb_at_iff_scan)
  finally show ?thesis .
qed

lemma match_at_rgb_Some:
  assumes "i \<le> length s"
  shows "match_at rgb_colour_pattern s i = Some g \<longleftrightarrow>
     (\<exists>d1 d2 d3. rgb_at s i d1 d2 d3 \<and> tl g = [d1, d2, d3]
        \<and> match_at rgb_colour_pattern s i = Some g)"
proof
  assume m: "match_at rgb_colour_pattern s i = Some g"
  with match_at_rgb [of s i] obtain d1 d2 d3 where
    "rgb_scan (drop i s) = Some (d1, d2, d3)" "tl g = [d1, d2, d3]"
    by (cases "rgb_scan (drop i s)") auto
  with assms m show "\<exists>d1 d2 d3. rgb_at s i d1 d2 d3 \<and> tl g = [d1, d2, d3]
        \<and> match_at rgb_colour_pattern s i = Some g"
    by (auto simp: rgb_at_iff_scan)
next
  assume "\<exists>d1 d2 d3. rgb_at s i d1 d2 d3 \<and> tl g = [d1, d2, d3]
        \<and> match_at rgb_colour_pattern s i = Some g"
  then show "match_at rgb_colour_pattern s i = Some g" by blast
qed

lemma rgb_at_match:
  assumes "rgb_at s i d1 d2 d3"
  shows "\<exists>w. match_at rgb_colour_pattern s i = Some [w, d1, d2, d3]"
proof -
  from assms have scan: "rgb_scan (drop i s) = Some (d1, d2, d3)"
    by (simp add: rgb_at_iff_scan)
  with match_at_rgb [of s i] obtain g where
    g: "match_at rgb_colour_pattern s i = Some g" "tl g = [d1, d2, d3]"
    by (cases "match_at rgb_colour_pattern s i") auto
  from match_at_nonempty [OF g(1)] g(2) have "g = [hd g, d1, d2, d3]" by simp
  with g(1) show ?thesis by metis
qed

lemma rgb_at_bound: "rgb_at s i d1 d2 d3 \<Longrightarrow> i \<le> length s"
  by (simp add: rgb_at_iff_scan)

lemma hex_match_groups:
  assumes "re_search hex_colour_pattern text = Some m"
  shows "length m = 1"
proof -
  from assms obtain i where "match_at hex_colour_pattern text i = Some m"
    unfolding re_search_Some_iff by blast
  then show ?thesis by (auto simp: match_at_hex split: if_splits)
qed

lemma rgb_match_groups:
  assumes "re_search rgb_colour_pattern text = Some m"
  shows "length m = 4"
proof -
  from assms obtain i where i: "i \<le> length text" "match_at rgb_colour_pattern text i = Some m"
    unfolding re_search_Some_iff by blast
  from i(2) obtain d1 d2 d3 where "tl m = [d1, d2, d3]"
    using match_at_rgb_Some [OF i(1), of m] by blast
  with match_at_nonempty [OF i(2)] have "m = [hd m, d1, d2, d3]" by simp
  then have "length m = length [hd m, d1, d2, d3]" by (rule arg_cong)
  then show ?thesis by simp
qed

lemma extract_rgb_colour_None_iff:
  "extract_rgb_colour text = None \<longleftrightarrow> (\<forall>i d1 d2 d3. \<not> rgb_at text i d1 d2 d3)"
proof -
  have "extract_rgb_colour text = None \<longleftrightarrow> re_search rgb_colour_pattern text = None"
    by (simp add: extract_rgb_colour_def split: option.splits)
  also have "\<dots> \<longleftrightarrow> (\<forall>i \<le> length text. \<forall>d1 d2 d3. \<not> rgb_at text i d1 d2 d3)"
    by (simp add: re_search_None_iff match_at_rgb_None)
  also have "\<dots> \<longleftrightarrow> (\<forall>i d1 d2 d3. \<not> rgb_at text i d1 d2 d3)"
    using rgb_at_bound by blast
  finally show ?thesis .
qed

lemma extract_rgb_colour_Some_iff:
  "extract_rgb_colour text = Some v \<longleftrightarrow>
     (\<exists>i d1 d2 d3. rgb_at text i d1 d2 d3
        \<and> (\<forall>j < i. \<forall>e1 e2 e3. \<not> rgb_at text j e1 e2 e3)
        \<and> v = (py_int d1, py_int d2, py_int d3))"
proof
  assume "extract_rgb_colour text = Some v"
  then obtain g where g: "re_search rgb_colour_pattern text = Some g"
    and v: "v = (py_int (group g 1), py_int (group g 2), py_int (group g 3))"
    by (auto simp: extract_rgb_colour_def split: option.splits)
  from g obtain i where i: "i \<le> length text" "match_at rgb_colour_pattern text i = Some g"
    "\<forall>j < i. match_at rgb_colour_pattern text j = None"
    unfolding re_search_Some_iff by blast
  from i(2) obtain d1 d2 d3 where d: "rgb_at text i d1 d2 d3" "tl g = [d1, d2, d3]"
    using match_at_rgb_Some [OF i(1), of g] by blast
  from match_at_nonempty [OF i(2)] d(2) have "g = [hd g, d1, d2, d3]" by simp
  then have "group g 1 = d1" "group g 2 = d2" "group g 3 = d3"
    unfolding group_def by (metis nth_Cons_0 nth_Cons_Suc One_nat_def numeral_2_eq_2 numeral_3_eq_3)+
  with v have v': "v = (py_int d1, py_int d2, py_int d3)" by simp
  have "\<forall>j < i. \<forall>e1 e2 e3. \<not> rgb_at text j e1 e2 e3"
  proof (intro allI impI)
    fix j e1 e2 e3 assume "j < i"
    with i(1) i(3) have "j \<le> length text" "match_at rgb_colour_pattern text j = None" by simp_all
    then show "\<not> rgb_at text j e1 e2 e3" by (simp add: match_at_rgb_None)
  qed
  with d(1) v' show "\<exists>i d1 d2 d3. rgb_at text i d1 d2 d3
        \<and> (\<forall>j < i. \<forall>e1 e2 e3. \<not> rgb_at text j e1 e2 e3)
        \<and> v = (py_int d1, py_int d2, py_int d3)" by blast
next
  assume "\<exists>i d1 d2 d3. rgb_at text i d1 d2 d3
        \<and> (\<forall>j < i. \<forall>e1 e2 e3. \<not> rgb_at text j e1 e2 e3)
        \<and> v = (py_int d1, py_int d2, py_int d3)"
  then obtain i d1 d2 d3 where at: "rgb_at text i d1 d2 d3"
    and first: "\<forall>j < i. \<forall>e1 e2 e3. \<not> rgb_at text j e1 e2 e3"
    and v: "v = (py_int d1, py_int d2, py_int d3)" by blast
  from rgb_at_match [OF at] obtain w where
    m: "match_at rgb_colour_pattern text i = Some [w, d1, d2, d3]" by blast
  have le: "i \<le> length text" using at by (rule rgb_at_bound)
  have "\<forall>j < i. match_at rgb_colour_pattern text j = None"
  proof (intro allI impI)
    fix j assume "j < i"
    with le first have "j \<le> length text" "\<forall>e1 e2 e3. \<not> rgb_at text j e1 e2 e3" by simp_all
    then show "match_at rgb_colour_pattern text j = None" by (simp add: match_at_rgb_None)
  qed
  with le m have "re_search rgb_colour_pattern text = Some [w, d1, d2, d3]"
    unfolding re_search_Some_iff by blast
  with v show "extract_rgb_colour text = Some v"
    by (simp add: extract_rgb_colour_def group_def)
qed

text \<open>
  Claim C3. For the text \<^verbatim>\<open>This text contains a color code: rgb 1, 2, 342 and more text
  after\<close>, \<^verbatim>\<open>extract_rgb_colour\<close> returns (1, 2, 342): the parsed integers are not checked
  against an upper bound, and a channel above 255 is returned as it is. So are 256 and
  999; of four digits the group takes three.
\<close>

theorem extract_rgb_colour_accepts_342:
  "extract_rgb_colour ''This text contains a color code: rgb 1, 2, 342 and more text after''
     = Some (1, 2, 342)
   \<and> extract_rgb_colour ''rgb 256,999,1000'' = Some (256, 999, 100)"
  by code_simp

text \<open>
  Claim C6 as stated has a single space after \<^verbatim>\<open>rgb\<close> and nothing but commas between the
  groups. \<^verbatim>\<open>extract_rgb_colour\<close> succeeds on \<^verbatim>\<open>rgb1,2,3\<close>, and on the test text of the
  notebook, which has a space after each comma; neither has a match of the pattern as
  claimed.
\<close>

theorem extract_rgb_colour_single_space_counterexample:
  "extract_rgb_colour ''rgb1,2,3'' = Some (1, 2, 3)
   \<and> re_search claimed_rgb_pattern ''rgb1,2,3'' = None
   \<and> extract_rgb_colour ''This text contains a color code: rgb 1, 2, 342 and more text after''
       = Some (1, 2, 342)
   \<and> re_search claimed_rgb_pattern
        ''This text contains a color code: rgb 1, 2, 342 and more text after'' = None"
  by code_simp

text \<open>
  Claim C6, as amended. \<^verbatim>\<open>extract_rgb_colour\<close> succeeds exactly on the first
  case-insensitive match of \<^verbatim>\<open>rgb\<close> followed by any run of white space, which may be
  empty, and three groups of one to three digits, the first two each followed by a comma
  and any run of white space; it returns the three groups as integers. On a text with no
  such match it returns none, and \<^verbatim>\<open>download_colour_data\<close> then yields no record for the
  paragraph with that text: it goes on with the next paragraph.
\<close>

theorem extract_rgb_colour_first_match:
  "(extract_rgb_colour text = None \<longleftrightarrow> (\<forall>i d1 d2 d3. \<not> rgb_at text i d1 d2 d3))
   \<and> (\<forall>v. extract_rgb_colour text = Some v \<longleftrightarrow>
         (\<exists>i d1 d2 d3. rgb_at text i d1 d2 d3
            \<and> (\<forall>j < i. \<forall>e1 e2 e3. \<not> rgb_at text j e1 e2 e3)
            \<and> v = (py_int d1, py_int d2, py_int d3)))
   \<and> (extract_rgb_colour (text' p) = None \<longrightarrow>
         download_colour_data base_colour (p # ps) = download_colour_data base_colour ps)"
proof (intro conjI allI impI)
  show "extract_rgb_colour text = None \<longleftrightarrow> (\<forall>i d1 d2 d3. \<not> rgb_at text i d1 d2 d3)"
    by (rule extract_rgb_colour_None_iff)
  show "extract_rgb_colour text = Some v \<longleftrightarrow>
         (\<exists>i d1 d2 d3. rgb_at text i d1 d2 d3
            \<and> (\<forall>j < i. \<forall>e1 e2 e3. \<not> rgb_at text j e1 e2 e3)
            \<and> v = (py_int d1, py_int d2, py_int d3))" for v
    by (rule extract_rgb_colour_Some_iff)
  show "download_colour_data base_colour (p # ps) = download_colour_data base_colour ps"
    if "extract_rgb_colour (text' p) = None"
    using that by (simp split: option.splits)
qed

theorem extract_rgb_colour_first_match_witness:
  "rgb_at ''RGB  12, 7,2559'' 0 ''12'' ''7'' ''255''
   \<and> extract_rgb_colour ''RGB  12, 7,2559'' = Some (12, 7, 255)
   \<and> extract_rgb_colour ''Hex #9F1D35'' = None
   \<and> download_colour_data ''red''
         [\<lparr>strong = Some ''No colour'', text' = ''Hex #9F1D35''\<rparr>,
          \<lparr>strong = Some ''Carmine'', text' = ''Carmine Hex #960018 RGB 150, 0, 24''\<rparr>]
       = download_colour_data ''red''
           [\<lparr>strong = Some ''Carmine'', text' = ''Carmine Hex #960018 RGB 150, 0, 24''\<rparr>]"
proof -
  have absent: "extract_rgb_colour ''Hex #9F1D35'' = None"
    by code_simp
  then have "extract_rgb_colour (text' \<lparr>strong = Some ''No colour'', text' = ''Hex #9F1D35''\<rparr>) = None"
    by simp
  with extract_rgb_colour_first_match
    [where p = "\<lparr>strong = Some ''No colour'', text' = ''Hex #9F1D35''\<rparr>"
       and base_colour = "''red''"
       and ps = "[\<lparr>strong = Some ''Carmine'', text' = ''Carmine Hex #960018 RGB 150, 0, 24''\<rparr>]"]
  have dropped: "download_colour_data ''red''
         [\<lparr>strong = Some ''No colour'', text' = ''Hex #9F1D35''\<rparr>,
          \<lparr>strong = Some ''Carmine'', text' = ''Carmine Hex #960018 RGB 150, 0, 24''\<rparr>]
       = download_colour_data ''red''
           [\<lparr>strong = Some ''Carmine'', text' = ''Carmine Hex #960018 RGB 150, 0, 24''\<rparr>]"
    by blast
  have here: "rgb_at ''RGB  12, 7,2559'' 0 ''12'' ''7'' ''255''"
  proof (rule rgb_atI [where l = "''RGB''" and ?w1.0 = "''  ''" and ?w2.0 = "'' ''"
        and ?w3.0 = "[]" and rest = "''9''"])
    show "0 \<le> length ''RGB  12, 7,2559''" by simp
    show "drop 0 ''RGB  12, 7,2559'' =
        ''RGB'' @ ''  '' @ ''12'' @ '','' @ '' '' @ ''7'' @ '','' @ [] @ ''255'' @ ''9''"
      by simp
    show "map lower ''RGB'' = ''rgb''" by code_simp
    show "list_all is_space ''  ''" by code_simp
    show "list_all is_space '' ''" by code_simp
    show "list_all is_space []" by simp
    show "digit_group ''12''" by code_simp
    show "digit_group ''7''" by code_simp
    show "digit_group ''255''" by code_simp
    show "length ''255'' = 3 \<or> ''9'' = [] \<or> \<not> is_digit (hd ''9'')" by simp
  qed
  have ints: "(py_int ''12'', py_int ''7'', py_int ''255'') = (12, 7, 255)"
    by code_simp
  have "\<exists>i d1 d2 d3. rgb_at ''RGB  12, 7,2559'' i d1 d2 d3
            \<and> (\<forall>j < i. \<forall>e1 e2 e3. \<not> rgb_at ''RGB  12, 7,2559'' j e1 e2 e3)
            \<and> (12, 7, 255) = (py_int d1, py_int d2, py_int d3)"
    using here ints
    by (intro exI [of _ 0] exI [of _ "''12''"] exI [of _ "''7''"] exI [of _ "''255''"]) simp
  with extract_rgb_colour_first_match [of "''RGB  12, 7,2559''"] here
  have "extract_rgb_colour ''RGB  12, 7,2559'' = Some (12, 7, 255)"
    by blast
  with here absent dropped show ?thesis
    by (intro conjI)
qed

section \<open>What reaches persistence\<close>

lemma extract_hex_colour_valid:
  assumes "extract_hex_colour text = Some h"
  shows "valid_hex h"
proof -
  from assms obtain i where i: "hex_at text i" and h: "h = take 7 (drop i text)"
    unfolding extract_hex_colour_Some_iff by blast
  from i have len: "i + 7 \<le> length text" and hash: "text ! i = CHR ''#''"
    and digs: "list_all is_hex_digit (take 6 (drop (Suc i) text))"
    by (simp_all add: hex_at_def)
  from len have "i < length text" by simp
  then have d: "drop i text = text ! i # drop (Suc i) text" by (simp add: Cons_nth_drop_Suc)
  have "h = CHR ''#'' # take 6 (drop (Suc i) text)"
    unfolding h d hash by (simp add: numeral_eq_Suc)
  with len digs show ?thesis by (simp add: valid_hex_def)
qed

lemma digit_value: "is_digit c \<Longrightarrow> 0 \<le> int (code c) - 48 \<and> int (code c) - 48 \<le> 9"
  by (auto simp: is_digit_def)

lemma py_int_bounds:
  assumes "digit_group d"
  shows "0 \<le> py_int d \<and> py_int d \<le> 999"
proof -
  from assms have len: "1 \<le> length d" "length d \<le> 3" and all: "\<forall>c \<in> set d. is_digit c"
    by (simp_all add: digit_group_def list_all_iff_set)
  from len consider a where "d = [a]" | a b where "d = [a, b]" | a b c where "d = [a, b, c]"
    by (cases d; cases "tl d"; cases "tl (tl d)"; cases "tl (tl (tl d))") auto
  then show ?thesis
  proof cases
    case 1
    with all digit_value [of a] show ?thesis by (simp add: py_int_def)
  next
    case 2
    with all digit_value [of a] digit_value [of b] show ?thesis by (simp add: py_int_def)
  next
    case 3
    with all digit_value [of a] digit_value [of b] digit_value [of c] show ?thesis
      by (simp add: py_int_def)
  qed
qed

lemma extract_rgb_colour_bounds:
  assumes "extract_rgb_colour text = Some (r, g, b)"
  shows "0 \<le> r \<and> r \<le> 999 \<and> 0 \<le> g \<and> g \<le> 999 \<and> 0 \<le> b \<and> b \<le> 999"
proof -
  from assms obtain i d1 d2 d3 where at: "rgb_at text i d1 d2 d3"
    and v: "(r, g, b) = (py_int d1, py_int d2, py_int d3)"
    unfolding extract_rgb_colour_Some_iff by blast
  from at have "digit_group d1" "digit_group d2" "digit_group d3"
    by (auto elim: rgb_atE)
  with v py_int_bounds [of d1] py_int_bounds [of d2] py_int_bounds [of d3]
  show ?thesis by simp
qed

lemma download_colour_data_ok:
  "c \<in> set (download_colour_data base_colour ps) \<Longrightarrow> scraped_ok c"
proof (induction ps)
  case Nil
  then show ?case by simp
next
  case (Cons p ps)
  show ?case
  proof (cases "strong p")
    case None
    with Cons show ?thesis by simp
  next
    case (Some name_text)
    note nm = this
    show ?thesis
    proof (cases "extract_hex_colour (text' p)")
      case None
      with Cons nm show ?thesis by simp
    next
      case (Some h)
      note hx = this
      show ?thesis
      proof (cases "extract_rgb_colour (text' p)")
        case None
        with Cons nm hx show ?thesis by simp
      next
        case (Some v)
        obtain r g b where v: "v = (r, g, b)" by (cases v) auto
        from Some v have rgb: "extract_rgb_colour (text' p) = Some (r, g, b)" by simp
        from extract_hex_colour_valid [OF hx] extract_rgb_colour_bounds [OF rgb]
        have "scraped_ok \<lparr>name = PStr name_text, base = PStr base_colour, hex = PStr h,
                rgb = PTuple [PInt r, PInt g, PInt b]\<rparr>"
          unfolding scraped_ok_def by blast
        with Cons nm hx rgb show ?thesis by auto
      qed
    qed
  qed
qed

lemma add_ids_ok:
  "d \<in> set (map toJSON (add_ids uuid4 n cs)) \<Longrightarrow> \<forall>c \<in> set cs. scraped_ok c \<Longrightarrow> persisted_ok 999 d"
proof (induction cs arbitrary: n)
  case Nil
  then show ?case by simp
next
  case (Cons c cs)
  from Cons.prems(2) have "scraped_ok c" by simp
  then have "persisted_ok 999 (toJSON (add_id_to_colour (uuid4 n) c))"
    unfolding scraped_ok_def persisted_ok_def
    by (auto simp: toJSON_def add_id_to_colour_def)
  with Cons show ?case by auto
qed

text \<open>
  Claim C2, as amended. Whatever the pages contain and whatever identifiers are drawn,
  every call of \<^verbatim>\<open>save_to_json_gz_file\<close> that the main loop makes writes a non-empty list
  of records, each with a string \<^verbatim>\<open>id\<close>, \<^verbatim>\<open>name\<close> and \<^verbatim>\<open>base\<close>, a syntactically valid
  hex string, and three integer channels each in the range 0 to 999: a paragraph for
  which the hex or the rgb extraction fails yields no record, and an extracted channel
  has one to three digits.
\<close>

theorem persisted_records_well_formed:
  "\<forall>(file_name, data) \<in> set (main_loop fetch uuid4 n names).
     \<exists>ds. data = PList ds \<and> ds \<noteq> [] \<and> (\<forall>d \<in> set ds. persisted_ok 999 d)"
proof (induction names arbitrary: n)
  case Nil
  show ?case by simp
next
  case (Cons colour rest)
  define colours where "colours = download_colour_data colour (fetch (create_colours_url colour))"
  define js where "js = map toJSON (add_ids uuid4 n colours)"
  have step: "main_loop fetch uuid4 n (colour # rest) =
      (if length js = 0 then main_loop fetch uuid4 n rest
       else (''./small-files/'' @ colour @ ''.json.gz'', PList js)
            # main_loop fetch uuid4 (n + length js) rest)"
    unfolding js_def colours_def by (simp only: main_loop.simps Let_def)
  have ok: "\<forall>d \<in> set js. persisted_ok 999 d"
    unfolding js_def colours_def
    using add_ids_ok download_colour_data_ok by blast
  show ?case
  proof (cases "js = []")
    case True
    with Cons [of n] show ?thesis unfolding step by simp
  next
    case False
    with Cons [of "n + length js"] ok show ?thesis unfolding step by simp
  qed
qed

lemma sample_run:
  "main_loop sample_fetch sample_uuid4 0 colour_names =
     [(''./small-files/red.json.gz'',
       PList
         [PDict [(''id'', PStr ''0b1f4c69-7a53-4a52-9a3e-5a1de5f0c001''),
                 (''name'', PStr ''Carmine''), (''base'', PStr ''red''),
                 (''hex'', PStr ''#960018''),
                 (''rgb'', PTuple [PInt 150, PInt 0, PInt 24])],
          PDict [(''id'', PStr ''b6907772-f286-4df1-b699-1d9dee8fdbb2''),
                 (''name'', PStr ''Test''), (''base'', PStr ''red''),
                 (''hex'', PStr ''#FFA500''),
                 (''rgb'', PTuple [PInt 1, PInt 2, PInt 342])]])]"
  by code_simp

theorem persisted_records_well_formed_witness:
  "persisted_ok 999
         (PDict [(''id'', PStr ''b6907772-f286-4df1-b699-1d9dee8fdbb2''),
                 (''name'', PStr ''Test''), (''base'', PStr ''red''),
                 (''hex'', PStr ''#FFA500''),
                 (''rgb'', PTuple [PInt 1, PInt 2, PInt 342])])"
  using persisted_records_well_formed [of sample_fetch sample_uuid4 0 colour_names]
  by (simp add: sample_run)

text \<open>
  Claim C2 as stated bounds the channels by 255. A paragraph with the text of the
  notebook's own extraction test puts the channel 342 into the saved file.
\<close>

theorem persisted_channel_above_255_counterexample:
  "(''./small-files/red.json.gz'',
       PList
         [PDict [(''id'', PStr ''0b1f4c69-7a53-4a52-9a3e-5a1de5f0c001''),
                 (''name'', PStr ''Carmine''), (''base'', PStr ''red''),
                 (''hex'', PStr ''#960018''),
                 (''rgb'', PTuple [PInt 150, PInt 0, PInt 24])],
          PDict [(''id'', PStr ''b6907772-f286-4df1-b699-1d9dee8fdbb2''),
                 (''name'', PStr ''Test''), (''base'', PStr ''red''),
                 (''hex'', PStr ''#FFA500''),
                 (''rgb'', PTuple [PInt 1, PInt 2, PInt 342])]])
     \<in> set (main_loop sample_fetch sample_uuid4 0 colour_names)
   \<and> \<not> persisted_ok 255
         (PDict [(''id'', PStr ''b6907772-f286-4df1-b699-1d9dee8fdbb2''),
                 (''name'', PStr ''Test''), (''base'', PStr ''red''),
                 (''hex'', PStr ''#FFA500''),
                 (''rgb'', PTuple [PInt 1, PInt 2, PInt 342])])"
  by (simp add: sample_run persisted_ok_def)

end
